theory Spec2Isabelle
  imports Complex_Main "HOL-Library.Multiset"
begin

section \<open>Arr\_Bezier\_curve\_traits\_2: number types and collaborators' data\<close>

text \<open>
  The traits class of \<^verbatim>\<open>Arr_Bezier_curve_traits_2.h\<close> is a template over a rational
  kernel, an algebraic kernel, a number-type traits class and a bounding traits class.
  \<^verbatim>\<open>Rational\<close> is embedded as \<^typ>\<open>rat\<close>, \<^verbatim>\<open>Algebraic\<close> (real algebraic numbers)
  as \<^typ>\<open>real\<close>, \<^verbatim>\<open>Integer\<close> as \<^typ>\<open>int\<close>.
\<close>

type_synonym Rational = rat
type_synonym Algebraic = real
type_synonym Integer = int
type_synonym Polynomial = "Integer list"
type_synonym Rat_point_2 = "Rational \<times> Rational"
type_synonym Control_point_vec = "Rat_point_2 list"

datatype Comparison_result = SMALLER | EQUAL | LARGER

text \<open>
  Modelled from the spec: \<^verbatim>\<open>CGAL::compare\<close> is the exact kernel's three-way comparison
  ("exact comparisons", section 6); its header is not among the sources.
\<close>

definition compare :: "Rational \<Rightarrow> Rational \<Rightarrow> Comparison_result" where
  "compare a b = (if a < b then SMALLER else if b < a then LARGER else EQUAL)"

text \<open>
  Modelled from the spec: \<^verbatim>\<open>Bounding_traits::Bez_point_bound\<close> and
  \<^verbatim>\<open>Bez_point_bbox\<close> are declared in \<^verbatim>\<open>Bezier_bounding_rational_traits.h\<close>, which is
  not among the sources. The record has the members the traits class reads
  (\<^verbatim>\<open>point_type\<close>, \<^verbatim>\<open>t_min\<close>, \<^verbatim>\<open>t_max\<close>, \<^verbatim>\<open>can_refine\<close>). The traits class only tests
  \<^verbatim>\<open>point_type\<close> against \<^verbatim>\<open>RATIONAL_PT\<close>; every other enumerator is \<open>OTHER_PT\<close>.
\<close>

datatype Bez_point_type = RATIONAL_PT | OTHER_PT

record Bez_point_bound =
  point_type :: Bez_point_type
  t_min :: Rational
  t_max :: Rational
  can_refine :: bool

record Bez_point_bbox =
  min_x :: Rational
  max_x :: Rational
  min_y :: Rational
  max_y :: Rational

type_synonym Tang_pair = "Bez_point_bound \<times> Bez_point_bbox"

text \<open>
  Modelled from the spec: \<^verbatim>\<open>Curve_2\<close> (\<^verbatim>\<open>Bezier_curve_2.h\<close> is not among the sources):
  "identity (stable, comparable id), ordered sequence of rational control points,
  lazily-derived polynomials X(t), Y(t) and their normalization", immutable. The fields
  are what the accessors \<^verbatim>\<open>id()\<close>, \<^verbatim>\<open>control_points_begin()/end()\<close>, \<^verbatim>\<open>x_polynomial()\<close>
  and \<^verbatim>\<open>x_norm()\<close> return.
\<close>

record Curve_2 =
  curve_id :: nat
  control_points :: Control_point_vec
  x_polynomial :: Polynomial
  x_norm :: Integer

text \<open>
  Modelled from the spec: \<^verbatim>\<open>Point_2\<close> (\<^verbatim>\<open>Bezier_point_2.h\<close> is not among the sources).
  A point is a list of originators (a curve with an exact rational parameter, an exact
  algebraic parameter, or a refinable parameter bound) and the bounding box attached to
  it by \<^verbatim>\<open>set_bbox\<close>. \<open>Point_2_default\<close> is \<^verbatim>\<open>Point_2()\<close>, \<open>Point_2_rat B t\<close> is
  \<^verbatim>\<open>Point_2 (B, t)\<close> for a \<^verbatim>\<open>Rational\<close> \<open>t\<close>, \<open>Point_2_alg B t\<close> is the same constructor
  for an \<^verbatim>\<open>Algebraic\<close> \<open>t\<close>.
\<close>

datatype Point_param =
    Rat_param Rational
  | Alg_param Algebraic
  | Bound_param Bez_point_bound

record Originator =
  orig_curve :: Curve_2
  orig_param :: Point_param

record Point_2 =
  originators :: "Originator list"
  bbox :: "Bez_point_bbox option"

definition Point_2_default :: Point_2 where
  "Point_2_default = \<lparr>originators = [], bbox = None\<rparr>"

definition Point_2_rat :: "Curve_2 \<Rightarrow> Rational \<Rightarrow> Point_2" where
  "Point_2_rat B t0 =
     \<lparr>originators = [\<lparr>orig_curve = B, orig_param = Rat_param t0\<rparr>], bbox = None\<rparr>"

definition Point_2_alg :: "Curve_2 \<Rightarrow> Algebraic \<Rightarrow> Point_2" where
  "Point_2_alg B t0 =
     \<lparr>originators = [\<lparr>orig_curve = B, orig_param = Alg_param t0\<rparr>], bbox = None\<rparr>"

definition Originator_of :: "Curve_2 \<Rightarrow> Bez_point_bound \<Rightarrow> Originator" where
  "Originator_of B bound = \<lparr>orig_curve = B, orig_param = Bound_param bound\<rparr>"

definition add_originator :: "Point_2 \<Rightarrow> Originator \<Rightarrow> Point_2" where
  "add_originator pt orig = pt\<lparr>originators := originators pt @ [orig]\<rparr>"

definition set_bbox :: "Point_2 \<Rightarrow> Bez_point_bbox \<Rightarrow> Point_2" where
  "set_bbox pt bb = pt\<lparr>bbox := Some bb\<rparr>"

text \<open>
  Modelled from the spec: \<^verbatim>\<open>X_monotone_curve_2\<close> (\<^verbatim>\<open>Bezier_x_monotone_2.h\<close> is not among
  the sources): "supporting Curve reference, left Point, right Point". The record keeps
  the arguments of the constructor call \<^verbatim>\<open>X_monotone_curve_2 (B, ps, pt, cache)\<close>: the
  supporting curve and the two construction points, in the order given. What the
  constructor reads from or adds to the cache is outside the model.
\<close>

record X_monotone_curve_2 =
  supp_curve :: Curve_2
  ps :: Point_2
  pt :: Point_2

datatype Object = make_object X_monotone_curve_2

text \<open>
  Modelled from the spec: \<^verbatim>\<open>Bezier_cache\<close> (\<^verbatim>\<open>Bezier_cache.h\<close> is not among the
  sources): two memo tables, the vertical-tangency parameter list per curve id and the
  intersection parameter list per pair of curve ids. \<open>get_vertical_tangencies\<close>
  "returns the memoized ascending list of parameters where dX/dt = 0 within (0,1),
  computing it via exact root isolation on first call and storing it permanently".
  The root isolation of the number-type traits class is the parameter \<open>isolate\<close>.
\<close>

record Bezier_cache =
  vert_tang_map :: "(nat \<times> Algebraic list) list"
  intersect_map :: "((nat \<times> nat) \<times> (Algebraic \<times> Algebraic) list) list"

definition empty_cache :: Bezier_cache where
  "empty_cache = \<lparr>vert_tang_map = [], intersect_map = []\<rparr>"

definition get_vertical_tangencies ::
  "(Polynomial \<Rightarrow> Integer \<Rightarrow> Algebraic list) \<Rightarrow> Bezier_cache \<Rightarrow> nat \<Rightarrow> Polynomial \<Rightarrow> Integer
     \<Rightarrow> Algebraic list \<times> Bezier_cache" where
  "get_vertical_tangencies isolate cache cid polyX normX =
     (case map_of (vert_tang_map cache) cid of
        Some vt_list \<Rightarrow> (vt_list, cache)
      | None \<Rightarrow>
          (let vt_list = isolate polyX normX
           in (vt_list, cache\<lparr>vert_tang_map := (cid, vt_list) # vert_tang_map cache\<rparr>)))"

text \<open>
  Modelled from the spec: the intersection map, "mapping from an unordered pair of curve
  identities to the set of intersection points already materialized as Points".
\<close>

type_synonym Intersection_map = "((nat \<times> nat) \<times> Point_2 list) list"

text \<open>
  An output iterator is used through \<^verbatim>\<open>*oi = v\<close> and \<^verbatim>\<open>++oi\<close> only. Its model is the
  sequence of values assigned through it, in order, and the number of increments.
\<close>

record 'a OutputIterator =
  emitted :: "'a list"
  increments :: nat

definition oi_assign :: "'a OutputIterator \<Rightarrow> 'a \<Rightarrow> 'a OutputIterator" where
  "oi_assign oi v = oi\<lparr>emitted := emitted oi @ [v]\<rparr>"

definition oi_incr :: "'a OutputIterator \<Rightarrow> 'a OutputIterator" where
  "oi_incr oi = oi\<lparr>increments := Suc (increments oi)\<rparr>"

datatype fault = Assertion_violation | Dangling_pointer

section \<open>Make\_x\_monotone\_2\<close>

text \<open>
  The inner loop of \<^verbatim>\<open>Make_x_monotone_2::operator()\<close> (lines 526-536): iterators into
  \<open>tang_bounds\<close> are positions; \<open>it_min\<close> starts at \<open>begin()\<close>, \<open>iter\<close> one past it.
\<close>

function locate_min :: "Tang_pair list \<Rightarrow> nat \<Rightarrow> nat \<Rightarrow> nat" where
  "locate_min tang_bounds it_min iter =
     (if iter < length tang_bounds then
        locate_min tang_bounds
          (if compare (t_min (fst (tang_bounds ! iter))) (t_min (fst (tang_bounds ! it_min))) = SMALLER
           then iter else it_min)
          (Suc iter)
      else it_min)"
  by pat_completeness auto
termination
  by (relation "measure (\<lambda>(tb, m, i). length tb - i)") auto

declare locate_min.simps [simp del]

definition erase :: "'a list \<Rightarrow> nat \<Rightarrow> 'a list" where
  "erase xs i = take i xs @ drop (Suc i) xs"

lemma locate_min_less:
  "it_min < length tb \<Longrightarrow> locate_min tb it_min iter < length tb"
proof (induction tb it_min iter rule: locate_min.induct)
  case (1 tb it_min iter)
  show ?case
  proof (cases "iter < length tb")
    case True
    then show ?thesis
      using "1.IH" "1.prems" by (subst locate_min.simps) simp
  next
    case False
    then show ?thesis
      using "1.prems" by (subst locate_min.simps) simp
  qed
qed

lemma length_erase: "i < length xs \<Longrightarrow> length (erase xs i) < length xs"
  by (simp add: erase_def)

text \<open>
  Lines 551-565: the point built for the selected bound. \<^verbatim>\<open>CGAL_assertion\<close> fails
  when a \<^verbatim>\<open>RATIONAL_PT\<close> bound has \<open>t_min \<noteq> t_max\<close>; the failure is a fault of the call.
\<close>

definition make_tang_point :: "Curve_2 \<Rightarrow> Bez_point_bound \<Rightarrow> Bez_point_bbox \<Rightarrow> fault + Point_2" where
  "make_tang_point B bound bb =
     (if point_type bound = RATIONAL_PT then
        (if compare (t_min bound) (t_max bound) = EQUAL then
           (let t0 = t_min bound in Inr (set_bbox (Point_2_rat B t0) bb))
         else Inl Assertion_violation)
      else Inr (set_bbox (add_originator Point_2_default (Originator_of B bound)) bb))"

text \<open>
  Lines 520-571: the consumption loop. The result is \<open>(app_ok, tang_points)\<close>.
\<close>

function approx_loop :: "Curve_2 \<Rightarrow> Tang_pair list \<Rightarrow> Point_2 list \<Rightarrow> fault + (bool \<times> Point_2 list)" where
  "approx_loop B tang_bounds tang_points =
     (if tang_bounds = [] then Inr (True, tang_points)
      else
        (let it_min = locate_min tang_bounds 0 1;
             bound = fst (tang_bounds ! it_min);
             bb = snd (tang_bounds ! it_min)
         in if \<not> can_refine bound then Inr (False, tang_points)
            else
              (case make_tang_point B bound bb of
                 Inl e \<Rightarrow> Inl e
               | Inr p \<Rightarrow> approx_loop B (erase tang_bounds it_min) (tang_points @ [p]))))"
  by pat_completeness auto
termination
  by (relation "measure (\<lambda>(B, tb, tp). length tb)") (auto intro!: length_erase locate_min_less)

declare approx_loop.simps [simp del]

text \<open>
  Lines 578-588 and 607-618: the two emission loops. Each returns the last value of
  \<open>p0\<close> and the output iterator.
\<close>

fun emit_approx ::
  "Curve_2 \<Rightarrow> Point_2 \<Rightarrow> Point_2 list \<Rightarrow> Object OutputIterator \<Rightarrow> Point_2 \<times> Object OutputIterator" where
  "emit_approx B p0 [] oi = (p0, oi)"
| "emit_approx B p0 (pit # rest) oi =
     emit_approx B pit rest
       (oi_incr (oi_assign oi (make_object \<lparr>supp_curve = B, ps = p0, pt = pit\<rparr>)))"

fun emit_exact ::
  "Curve_2 \<Rightarrow> Point_2 \<Rightarrow> Algebraic list \<Rightarrow> Object OutputIterator \<Rightarrow> Point_2 \<times> Object OutputIterator" where
  "emit_exact B p0 [] oi = (p0, oi)"
| "emit_exact B p0 (t # rest) oi =
     (let p1 = Point_2_alg B t
      in emit_exact B p1 rest
           (oi_incr (oi_assign oi (make_object \<lparr>supp_curve = B, ps = p0, pt = p1\<rparr>))))"

text \<open>
  \<^verbatim>\<open>Make_x_monotone_2::operator()\<close> (lines 497-626). \<open>vertical_tangency_points\<close> is the
  member function of the bounding traits object \<^verbatim>\<open>bound_tr\<close>, \<open>isolate\<close> the exact root
  isolation behind the cache; the functor's \<^verbatim>\<open>*p_cache\<close> is passed and returned.
\<close>

definition Make_x_monotone_2 ::
  "(Control_point_vec \<Rightarrow> Rational \<Rightarrow> Rational \<Rightarrow> Tang_pair list) \<Rightarrow>
   (Polynomial \<Rightarrow> Integer \<Rightarrow> Algebraic list) \<Rightarrow>
   Bezier_cache \<Rightarrow> Curve_2 \<Rightarrow> Object OutputIterator \<Rightarrow>
   fault + (Object OutputIterator \<times> Bezier_cache)" where
  "Make_x_monotone_2 vertical_tangency_points isolate cache B oi =
     (let cpts = control_points B;
          tang_bounds = vertical_tangency_points cpts 0 1
      in case approx_loop B tang_bounds [] of
           Inl e \<Rightarrow> Inl e
         | Inr (app_ok, tang_points) \<Rightarrow>
             if app_ok then
               (let (p0, oi1) = emit_approx B (Point_2_rat B 0) tang_points oi;
                    p1 = Point_2_rat B 1
                in Inr (oi_assign oi1 (make_object \<lparr>supp_curve = B, ps = p0, pt = p1\<rparr>), cache))
             else
               (let (vt_list, cache1) =
                      get_vertical_tangencies isolate cache (curve_id B) (x_polynomial B) (x_norm B);
                    (p0, oi1) = emit_exact B (Point_2_rat B 0) vt_list oi;
                    p1 = Point_2_rat B 1
                in Inr (oi_assign oi1 (make_object \<lparr>supp_curve = B, ps = p0, pt = p1\<rparr>), cache1)))"

subsection \<open>The order of selection\<close>

text \<open>
  The candidates in the order in which the consumption loop selects them, should it
  run to the end: the bound found by \<open>locate_min\<close>, then the selection order of the rest.
\<close>

function selection_order :: "Tang_pair list \<Rightarrow> Tang_pair list" where
  "selection_order tb =
     (if tb = [] then []
      else (let it_min = locate_min tb 0 1
            in tb ! it_min # selection_order (erase tb it_min)))"
  by pat_completeness auto
termination
  by (relation "measure length") (auto intro!: length_erase locate_min_less)

declare selection_order.simps [simp del]

text \<open>The invariant that the assertion of line 556 checks.\<close>

definition rational_collapsed :: "Tang_pair \<Rightarrow> bool" where
  "rational_collapsed c \<longleftrightarrow> (point_type (fst c) = RATIONAL_PT \<longrightarrow> t_min (fst c) = t_max (fst c))"

text \<open>
  The point of a refinable candidate in the words of the specification: an exact point
  at the rational parameter when the bound is of type \<^verbatim>\<open>RATIONAL_PT\<close>, otherwise a point
  with the curve and the bound as its only originator; the candidate's box attached.
\<close>

definition spec_tang_point :: "Curve_2 \<Rightarrow> Tang_pair \<Rightarrow> Point_2" where
  "spec_tang_point B c =
     (if point_type (fst c) = RATIONAL_PT then
        \<lparr>originators = [\<lparr>orig_curve = B, orig_param = Rat_param (t_min (fst c))\<rparr>],
         bbox = Some (snd c)\<rparr>
      else
        \<lparr>originators = [\<lparr>orig_curve = B, orig_param = Bound_param (fst c)\<rparr>],
         bbox = Some (snd c)\<rparr>)"

text \<open>The arcs between consecutive points of a list.\<close>

fun arcs_between :: "Curve_2 \<Rightarrow> Point_2 list \<Rightarrow> X_monotone_curve_2 list" where
  "arcs_between B (p # q # rest) = \<lparr>supp_curve = B, ps = p, pt = q\<rparr> # arcs_between B (q # rest)"
| "arcs_between B _ = []"

text \<open>
  The candidates that the consumption loop selects before it meets an unrefinable one.
\<close>

definition selected_before_break :: "Tang_pair list \<Rightarrow> Tang_pair list" where
  "selected_before_break tb = takeWhile (\<lambda>c. can_refine (fst c)) (selection_order tb)"

subsection \<open>The collaborators' contract and the agreement of arcs\<close>

text \<open>
  Modelled from the spec: what the bounding collaborator and the cache return for one
  curve. The code of both is not among the sources. The spec says that the collaborator
  proposes "bounded candidate intervals for all vertical-tangency parameters in (0,1)",
  that the "bounds are disjoint by construction", and that the cache returns "the
  memoized ascending list of parameters where dX/dt = 0 within (0,1)". So: the exact
  list is strictly ascending, the candidates are distinct with pairwise disjoint
  intervals, and some arrangement of the candidates encloses the exact parameters one
  by one.
\<close>

definition encloses :: "Tang_pair \<Rightarrow> Algebraic \<Rightarrow> bool" where
  "encloses c v \<longleftrightarrow> of_rat (t_min (fst c)) \<le> v \<and> v \<le> of_rat (t_max (fst c))"

definition disjoint_bounds :: "Tang_pair list \<Rightarrow> bool" where
  "disjoint_bounds tb \<longleftrightarrow>
     distinct tb \<and>
     (\<forall>c \<in> set tb. \<forall>d \<in> set tb. c \<noteq> d \<longrightarrow>
        t_max (fst c) < t_min (fst d) \<or> t_max (fst d) < t_min (fst c))"

definition candidates_isolate :: "Tang_pair list \<Rightarrow> Algebraic list \<Rightarrow> bool" where
  "candidates_isolate tb vts \<longleftrightarrow>
     sorted_wrt (<) vts \<and> disjoint_bounds tb \<and>
     (\<exists>cs. mset cs = mset tb \<and> list_all2 encloses cs vts)"

text \<open>
  A point with one originator denotes the parameter \<open>v\<close> when its exact parameter is \<open>v\<close>
  or its parameter bound contains \<open>v\<close>. Two arcs agree when they lie on the same curve and
  their construction points denote the same parameters.
\<close>

definition denotes :: "Point_2 \<Rightarrow> Algebraic \<Rightarrow> bool" where
  "denotes p v \<longleftrightarrow>
     (case originators p of
        [orig] \<Rightarrow>
          (case orig_param orig of
             Rat_param t \<Rightarrow> of_rat t = v
           | Alg_param a \<Rightarrow> a = v
           | Bound_param b \<Rightarrow> of_rat (t_min b) \<le> v \<and> v \<le> of_rat (t_max b))
      | _ \<Rightarrow> False)"

definition same_parameter :: "Point_2 \<Rightarrow> Point_2 \<Rightarrow> bool" where
  "same_parameter p q \<longleftrightarrow> (\<exists>v. denotes p v \<and> denotes q v)"

definition arcs_agree :: "X_monotone_curve_2 \<Rightarrow> X_monotone_curve_2 \<Rightarrow> bool" where
  "arcs_agree a b \<longleftrightarrow>
     supp_curve a = supp_curve b \<and> same_parameter (ps a) (ps b) \<and> same_parameter (pt a) (pt b)"

text \<open>
  Modelled from the spec: the interior vertical-tangency parameters of a curve are the
  list that the cache returns for it, "the memoized ascending list of parameters where
  dX/dt = 0 within (0,1)" (section 4.4); \<^verbatim>\<open>Bezier_cache.h\<close> and the root isolation are not
  among the sources.
\<close>

definition interior_tangencies ::
  "(Polynomial \<Rightarrow> Integer \<Rightarrow> Algebraic list) \<Rightarrow> Bezier_cache \<Rightarrow> Curve_2 \<Rightarrow> Algebraic list" where
  "interior_tangencies isolate cache B =
     fst (get_vertical_tangencies isolate cache (curve_id B) (x_polynomial B) (x_norm B))"

text \<open>
  Modelled from the spec: what the same sentence says of that list, that it is strictly
  ascending and lies inside (0,1).
\<close>

definition ascending_interior :: "Algebraic list \<Rightarrow> bool" where
  "ascending_interior vts \<longleftrightarrow> sorted_wrt (<) vts \<and> (\<forall>v \<in> set vts. 0 < v \<and> v < 1)"

section \<open>The traits facade: ownership of the cache and the intersection map\<close>

text \<open>
  \<^verbatim>\<open>new\<close> and \<^verbatim>\<open>delete\<close> act on a heap of tables. A pointer is a position in the heap;
  \<^verbatim>\<open>new\<close> takes the next position, \<^verbatim>\<open>delete\<close> empties the cell, and no position is
  given out twice. Deleting a pointer that is not allocated is undefined behaviour in
  C++ and a fault here.
\<close>

datatype cell = Cache_cell Bezier_cache | Imap_cell Intersection_map

type_synonym ptr = nat
type_synonym table_heap = "cell option list"

datatype mem_fault = No_such_object | Storage_in_use | Delete_unallocated

definition new_cell :: "table_heap \<Rightarrow> cell \<Rightarrow> ptr \<times> table_heap" where
  "new_cell h v = (length h, h @ [Some v])"

definition allocated :: "table_heap \<Rightarrow> ptr \<Rightarrow> bool" where
  "allocated h p \<longleftrightarrow> p < length h \<and> h ! p \<noteq> None"

definition delete_cell :: "table_heap \<Rightarrow> ptr \<Rightarrow> mem_fault + table_heap" where
  "delete_cell h p = (if allocated h p then Inr (h[p := None]) else Inl Delete_unallocated)"

text \<open>The data members \<^verbatim>\<open>_cache\<close>, \<^verbatim>\<open>_inter_map\<close> and \<^verbatim>\<open>_owner\<close> (lines 105-112).\<close>

record Arr_Bezier_curve_traits_2 =
  m_cache :: ptr
  m_inter_map :: ptr
  m_owner :: bool

text \<open>
  Facade objects live at addresses (\<^verbatim>\<open>this\<close>, \<^verbatim>\<open>&tr\<close>), so that the test
  \<^verbatim>\<open>this == &tr\<close> of the assignment operator is a comparison of addresses.
\<close>

record world =
  objs :: "nat \<Rightarrow> Arr_Bezier_curve_traits_2 option"
  tables :: table_heap

definition init_world :: world where
  "init_world = \<lparr>objs = (\<lambda>a. None), tables = []\<rparr>"

text \<open>Default constructor (lines 119-124), at the address \<open>this\<close>.\<close>

definition default_ctor :: "nat \<Rightarrow> world \<Rightarrow> mem_fault + world" where
  "default_ctor this w =
     (case objs w this of
        Some x \<Rightarrow> Inl Storage_in_use
      | None \<Rightarrow>
          (let (c, h1) = new_cell (tables w) (Cache_cell empty_cache);
               (m, h2) = new_cell h1 (Imap_cell [])
           in Inr (w\<lparr>objs := (objs w)(this := Some \<lparr>m_cache = c, m_inter_map = m, m_owner = True\<rparr>),
                     tables := h2\<rparr>)))"

text \<open>Copy constructor (lines 129-133).\<close>

definition copy_ctor :: "nat \<Rightarrow> nat \<Rightarrow> world \<Rightarrow> mem_fault + world" where
  "copy_ctor this tr w =
     (case objs w this of
        Some x \<Rightarrow> Inl Storage_in_use
      | None \<Rightarrow>
          (case objs w tr of
             None \<Rightarrow> Inl No_such_object
           | Some t \<Rightarrow>
               Inr (w\<lparr>objs := (objs w)(this := Some
                      \<lparr>m_cache = m_cache t, m_inter_map = m_inter_map t, m_owner = False\<rparr>)\<rparr>)))"

text \<open>Assignment operator (lines 138-147); the result is the reference \<^verbatim>\<open>*this\<close>.\<close>

definition assign :: "nat \<Rightarrow> nat \<Rightarrow> world \<Rightarrow> mem_fault + (nat \<times> world)" where
  "assign this tr w =
     (case objs w this of
        None \<Rightarrow> Inl No_such_object
      | Some x \<Rightarrow>
          (case objs w tr of
             None \<Rightarrow> Inl No_such_object
           | Some t \<Rightarrow>
               if this = tr then Inr (this, w)
               else Inr (this,
                      w\<lparr>objs := (objs w)(this := Some
                        (x\<lparr>m_cache := m_cache t, m_inter_map := m_inter_map t, m_owner := False\<rparr>))\<rparr>)))"

text \<open>Destructor (lines 152-159).\<close>

definition dtor :: "nat \<Rightarrow> world \<Rightarrow> mem_fault + world" where
  "dtor this w =
     (case objs w this of
        None \<Rightarrow> Inl No_such_object
      | Some x \<Rightarrow>
          if m_owner x then
            (case delete_cell (tables w) (m_cache x) of
               Inl e \<Rightarrow> Inl e
             | Inr h1 \<Rightarrow>
                 (case delete_cell h1 (m_inter_map x) of
                    Inl e \<Rightarrow> Inl e
                  | Inr h2 \<Rightarrow> Inr (w\<lparr>objs := (objs w)(this := None), tables := h2\<rparr>)))
          else Inr (w\<lparr>objs := (objs w)(this := None)\<rparr>))"

text \<open>A program over facades is a sequence of these four operations.\<close>

datatype action = Construct nat | Copy nat nat | Assign nat nat | Destroy nat

fun exec :: "world \<Rightarrow> action \<Rightarrow> mem_fault + world" where
  "exec w (Construct this) = default_ctor this w"
| "exec w (Copy this tr) = copy_ctor this tr w"
| "exec w (Assign this tr) = (case assign this tr w of Inl e \<Rightarrow> Inl e | Inr (r, w') \<Rightarrow> Inr w')"
| "exec w (Destroy this) = dtor this w"

fun run :: "world \<Rightarrow> action list \<Rightarrow> mem_fault + world" where
  "run w [] = Inr w"
| "run w (a # as) = (case exec w a of Inl e \<Rightarrow> Inl e | Inr w' \<Rightarrow> run w' as)"

text \<open>
  The invariant of the owner flag: the tables of an owner are allocated and distinct,
  and no table belongs to two owners.
\<close>

definition owners_ok :: "world \<Rightarrow> bool" where
  "owners_ok w \<longleftrightarrow>
     (\<forall>x fx. objs w x = Some fx \<and> m_owner fx \<longrightarrow>
        allocated (tables w) (m_cache fx) \<and> allocated (tables w) (m_inter_map fx) \<and>
        m_cache fx \<noteq> m_inter_map fx) \<and>
     (\<forall>x y fx fy. objs w x = Some fx \<and> objs w y = Some fy \<and> m_owner fx \<and> m_owner fy \<and> x \<noteq> y \<longrightarrow>
        m_cache fx \<noteq> m_cache fy \<and> m_cache fx \<noteq> m_inter_map fy \<and>
        m_inter_map fx \<noteq> m_cache fy \<and> m_inter_map fx \<noteq> m_inter_map fy)"

text \<open>A table that is allocated and that no owner points to: no destructor releases it.\<close>

definition orphan :: "world \<Rightarrow> ptr \<Rightarrow> bool" where
  "orphan w a \<longleftrightarrow>
     allocated (tables w) a \<and>
     (\<forall>z fz. objs w z = Some fz \<and> m_owner fz \<longrightarrow> m_cache fz \<noteq> a \<and> m_inter_map fz \<noteq> a)"

section \<open>The functors\<close>

text \<open>
  The member functions of \<^verbatim>\<open>Point_2\<close> and \<^verbatim>\<open>X_monotone_curve_2\<close> that the functors call
  are not among the sources; they are the fields of a record that every functor call
  takes. A function that receives the cache (or the intersection map, or an output
  iterator) by reference returns its new value.
\<close>

record 'o Arc_ops =
  pt_compare_x :: "Point_2 \<Rightarrow> Point_2 \<Rightarrow> Bezier_cache \<Rightarrow> Comparison_result \<times> Bezier_cache"
  pt_compare_xy :: "Point_2 \<Rightarrow> Point_2 \<Rightarrow> Bezier_cache \<Rightarrow> Comparison_result \<times> Bezier_cache"
  pt_equals :: "Point_2 \<Rightarrow> Point_2 \<Rightarrow> Bezier_cache \<Rightarrow> bool \<times> Bezier_cache"
  cv_left :: "X_monotone_curve_2 \<Rightarrow> Point_2"
  cv_right :: "X_monotone_curve_2 \<Rightarrow> Point_2"
  cv_is_vertical :: "X_monotone_curve_2 \<Rightarrow> bool"
  cv_point_position ::
    "X_monotone_curve_2 \<Rightarrow> Point_2 \<Rightarrow> Bezier_cache \<Rightarrow> Comparison_result \<times> Bezier_cache"
  cv_compare_to_left ::
    "X_monotone_curve_2 \<Rightarrow> X_monotone_curve_2 \<Rightarrow> Point_2 \<Rightarrow> Bezier_cache
       \<Rightarrow> Comparison_result \<times> Bezier_cache"
  cv_compare_to_right ::
    "X_monotone_curve_2 \<Rightarrow> X_monotone_curve_2 \<Rightarrow> Point_2 \<Rightarrow> Bezier_cache
       \<Rightarrow> Comparison_result \<times> Bezier_cache"
  cv_equals :: "X_monotone_curve_2 \<Rightarrow> X_monotone_curve_2 \<Rightarrow> Bezier_cache \<Rightarrow> bool \<times> Bezier_cache"
  cv_split :: "X_monotone_curve_2 \<Rightarrow> Point_2 \<Rightarrow> X_monotone_curve_2 \<times> X_monotone_curve_2"
  cv_intersect ::
    "X_monotone_curve_2 \<Rightarrow> X_monotone_curve_2 \<Rightarrow> Intersection_map \<Rightarrow> Bezier_cache
       \<Rightarrow> 'o OutputIterator \<Rightarrow> 'o OutputIterator \<times> Intersection_map \<times> Bezier_cache"
  cv_can_merge_with :: "X_monotone_curve_2 \<Rightarrow> X_monotone_curve_2 \<Rightarrow> bool"
  cv_merge :: "X_monotone_curve_2 \<Rightarrow> X_monotone_curve_2 \<Rightarrow> X_monotone_curve_2"
  cv_is_directed_right :: "X_monotone_curve_2 \<Rightarrow> bool"
  cv_flip :: "X_monotone_curve_2 \<Rightarrow> X_monotone_curve_2"

text \<open>Dereferencing \<^verbatim>\<open>*p_cache\<close> and \<^verbatim>\<open>*p_imap\<close>; a pointer to a deleted table dangles.\<close>

definition cache_at :: "table_heap \<Rightarrow> ptr \<Rightarrow> Bezier_cache option" where
  "cache_at h p =
     (if p < length h then (case h ! p of Some (Cache_cell c) \<Rightarrow> Some c | _ \<Rightarrow> None) else None)"

definition imap_at :: "table_heap \<Rightarrow> ptr \<Rightarrow> Intersection_map option" where
  "imap_at h p =
     (if p < length h then (case h ! p of Some (Imap_cell m) \<Rightarrow> Some m | _ \<Rightarrow> None) else None)"

definition put_cache :: "world \<Rightarrow> ptr \<Rightarrow> Bezier_cache \<Rightarrow> world" where
  "put_cache w p c = w\<lparr>tables := (tables w)[p := Some (Cache_cell c)]\<rparr>"

definition put_imap :: "world \<Rightarrow> ptr \<Rightarrow> Intersection_map \<Rightarrow> world" where
  "put_imap w p m = w\<lparr>tables := (tables w)[p := Some (Imap_cell m)]\<rparr>"

text \<open>
  A call that passes \<^verbatim>\<open>*p_cache\<close> by reference: the callee gets the cache behind the
  pointer, and the cache it leaves is stored back.
\<close>

definition with_cache ::
  "world \<Rightarrow> ptr \<Rightarrow> (Bezier_cache \<Rightarrow> 'r \<times> Bezier_cache) \<Rightarrow> fault + ('r \<times> world)" where
  "with_cache w p f =
     (case cache_at (tables w) p of
        None \<Rightarrow> Inl Dangling_pointer
      | Some c \<Rightarrow> (let (r, c') = f c in Inr (r, put_cache w p c')))"

text \<open>
  A functor object is the pointers it holds. For each functor class: the class, the
  member function of the facade that creates it, and its \<^verbatim>\<open>operator()\<close>.
\<close>

datatype Compare_x_2 = Compare_x_2 ptr
datatype Compare_xy_2 = Compare_xy_2 ptr
datatype Construct_min_vertex_2 = Construct_min_vertex_2
datatype Construct_max_vertex_2 = Construct_max_vertex_2
datatype Is_vertical_2 = Is_vertical_2
datatype Compare_y_at_x_2 = Compare_y_at_x_2 ptr
datatype Compare_y_at_x_left_2 = Compare_y_at_x_left_2 ptr
datatype Compare_y_at_x_right_2 = Compare_y_at_x_right_2 ptr
datatype Equal_2 = Equal_2 ptr
datatype Split_2 = Split_2
datatype Intersect_2 = Intersect_2 ptr ptr
datatype Are_mergeable_2 = Are_mergeable_2
datatype Merge_2 = Merge_2
datatype Compare_endpoints_xy_2 = Compare_endpoints_xy_2
datatype Construct_opposite_2 = Construct_opposite_2

definition compare_x_2_object :: "Arr_Bezier_curve_traits_2 \<Rightarrow> Compare_x_2" where
  "compare_x_2_object tr = Compare_x_2 (m_cache tr)"

fun Compare_x_2_call ::
  "'o Arc_ops \<Rightarrow> world \<Rightarrow> Compare_x_2 \<Rightarrow> Point_2 \<Rightarrow> Point_2 \<Rightarrow> fault + (Comparison_result \<times> world)" where
  "Compare_x_2_call ops w (Compare_x_2 p_cache) p1 p2 = with_cache w p_cache (pt_compare_x ops p1 p2)"

definition compare_xy_2_object :: "Arr_Bezier_curve_traits_2 \<Rightarrow> Compare_xy_2" where
  "compare_xy_2_object tr = Compare_xy_2 (m_cache tr)"

fun Compare_xy_2_call ::
  "'o Arc_ops \<Rightarrow> world \<Rightarrow> Compare_xy_2 \<Rightarrow> Point_2 \<Rightarrow> Point_2 \<Rightarrow> fault + (Comparison_result \<times> world)" where
  "Compare_xy_2_call ops w (Compare_xy_2 p_cache) p1 p2 = with_cache w p_cache (pt_compare_xy ops p1 p2)"

definition construct_min_vertex_2_object :: "Arr_Bezier_curve_traits_2 \<Rightarrow> Construct_min_vertex_2" where
  "construct_min_vertex_2_object tr = Construct_min_vertex_2"

fun Construct_min_vertex_2_call ::
  "'o Arc_ops \<Rightarrow> Construct_min_vertex_2 \<Rightarrow> X_monotone_curve_2 \<Rightarrow> Point_2" where
  "Construct_min_vertex_2_call ops Construct_min_vertex_2 cv = cv_left ops cv"

definition construct_max_vertex_2_object :: "Arr_Bezier_curve_traits_2 \<Rightarrow> Construct_max_vertex_2" where
  "construct_max_vertex_2_object tr = Construct_max_vertex_2"

fun Construct_max_vertex_2_call ::
  "'o Arc_ops \<Rightarrow> Construct_max_vertex_2 \<Rightarrow> X_monotone_curve_2 \<Rightarrow> Point_2" where
  "Construct_max_vertex_2_call ops Construct_max_vertex_2 cv = cv_right ops cv"

definition is_vertical_2_object :: "Arr_Bezier_curve_traits_2 \<Rightarrow> Is_vertical_2" where
  "is_vertical_2_object tr = Is_vertical_2"

fun Is_vertical_2_call :: "'o Arc_ops \<Rightarrow> Is_vertical_2 \<Rightarrow> X_monotone_curve_2 \<Rightarrow> bool" where
  "Is_vertical_2_call ops Is_vertical_2 cv = cv_is_vertical ops cv"

definition compare_y_at_x_2_object :: "Arr_Bezier_curve_traits_2 \<Rightarrow> Compare_y_at_x_2" where
  "compare_y_at_x_2_object tr = Compare_y_at_x_2 (m_cache tr)"

fun Compare_y_at_x_2_call ::
  "'o Arc_ops \<Rightarrow> world \<Rightarrow> Compare_y_at_x_2 \<Rightarrow> Point_2 \<Rightarrow> X_monotone_curve_2
     \<Rightarrow> fault + (Comparison_result \<times> world)" where
  "Compare_y_at_x_2_call ops w (Compare_y_at_x_2 p_cache) p cv =
     with_cache w p_cache (cv_point_position ops cv p)"

definition compare_y_at_x_left_2_object :: "Arr_Bezier_curve_traits_2 \<Rightarrow> Compare_y_at_x_left_2" where
  "compare_y_at_x_left_2_object tr = Compare_y_at_x_left_2 (m_cache tr)"

fun Compare_y_at_x_left_2_call ::
  "'o Arc_ops \<Rightarrow> world \<Rightarrow> Compare_y_at_x_left_2 \<Rightarrow> X_monotone_curve_2 \<Rightarrow> X_monotone_curve_2 \<Rightarrow> Point_2
     \<Rightarrow> fault + (Comparison_result \<times> world)" where
  "Compare_y_at_x_left_2_call ops w (Compare_y_at_x_left_2 p_cache) cv1 cv2 p =
     with_cache w p_cache (cv_compare_to_left ops cv1 cv2 p)"

definition compare_y_at_x_right_2_object :: "Arr_Bezier_curve_traits_2 \<Rightarrow> Compare_y_at_x_right_2" where
  "compare_y_at_x_right_2_object tr = Compare_y_at_x_right_2 (m_cache tr)"

fun Compare_y_at_x_right_2_call ::
  "'o Arc_ops \<Rightarrow> world \<Rightarrow> Compare_y_at_x_right_2 \<Rightarrow> X_monotone_curve_2 \<Rightarrow> X_monotone_curve_2 \<Rightarrow> Point_2
     \<Rightarrow> fault + (Comparison_result \<times> world)" where
  "Compare_y_at_x_right_2_call ops w (Compare_y_at_x_right_2 p_cache) cv1 cv2 p =
     with_cache w p_cache (cv_compare_to_right ops cv1 cv2 p)"

definition equal_2_object :: "Arr_Bezier_curve_traits_2 \<Rightarrow> Equal_2" where
  "equal_2_object tr = Equal_2 (m_cache tr)"

fun Equal_2_call_curves ::
  "'o Arc_ops \<Rightarrow> world \<Rightarrow> Equal_2 \<Rightarrow> X_monotone_curve_2 \<Rightarrow> X_monotone_curve_2
     \<Rightarrow> fault + (bool \<times> world)" where
  "Equal_2_call_curves ops w (Equal_2 p_cache) cv1 cv2 = with_cache w p_cache (cv_equals ops cv1 cv2)"

fun Equal_2_call_points ::
  "'o Arc_ops \<Rightarrow> world \<Rightarrow> Equal_2 \<Rightarrow> Point_2 \<Rightarrow> Point_2 \<Rightarrow> fault + (bool \<times> world)" where
  "Equal_2_call_points ops w (Equal_2 p_cache) p1 p2 = with_cache w p_cache (pt_equals ops p1 p2)"

definition split_2_object :: "Arr_Bezier_curve_traits_2 \<Rightarrow> Split_2" where
  "split_2_object tr = Split_2"

fun Split_2_call ::
  "'o Arc_ops \<Rightarrow> Split_2 \<Rightarrow> X_monotone_curve_2 \<Rightarrow> Point_2 \<Rightarrow> X_monotone_curve_2 \<times> X_monotone_curve_2" where
  "Split_2_call ops Split_2 cv p = cv_split ops cv p"

definition intersect_2_object :: "Arr_Bezier_curve_traits_2 \<Rightarrow> Intersect_2" where
  "intersect_2_object tr = Intersect_2 (m_cache tr) (m_inter_map tr)"

fun Intersect_2_call ::
  "'o Arc_ops \<Rightarrow> world \<Rightarrow> Intersect_2 \<Rightarrow> X_monotone_curve_2 \<Rightarrow> X_monotone_curve_2 \<Rightarrow> 'o OutputIterator
     \<Rightarrow> fault + ('o OutputIterator \<times> world)" where
  "Intersect_2_call ops w (Intersect_2 p_cache p_imap) cv1 cv2 oi =
     (case imap_at (tables w) p_imap of
        None \<Rightarrow> Inl Dangling_pointer
      | Some imap \<Rightarrow>
          (case cache_at (tables w) p_cache of
             None \<Rightarrow> Inl Dangling_pointer
           | Some cache \<Rightarrow>
               (let (oi', imap', cache') = cv_intersect ops cv1 cv2 imap cache oi
                in Inr (oi', put_cache (put_imap w p_imap imap') p_cache cache'))))"

definition are_mergeable_2_object :: "Arr_Bezier_curve_traits_2 \<Rightarrow> Are_mergeable_2" where
  "are_mergeable_2_object tr = Are_mergeable_2"

fun Are_mergeable_2_call ::
  "'o Arc_ops \<Rightarrow> Are_mergeable_2 \<Rightarrow> X_monotone_curve_2 \<Rightarrow> X_monotone_curve_2 \<Rightarrow> bool" where
  "Are_mergeable_2_call ops Are_mergeable_2 cv1 cv2 = cv_can_merge_with ops cv1 cv2"

definition merge_2_object :: "Arr_Bezier_curve_traits_2 \<Rightarrow> Merge_2" where
  "merge_2_object tr = Merge_2"

fun Merge_2_call ::
  "'o Arc_ops \<Rightarrow> Merge_2 \<Rightarrow> X_monotone_curve_2 \<Rightarrow> X_monotone_curve_2 \<Rightarrow> X_monotone_curve_2" where
  "Merge_2_call ops Merge_2 cv1 cv2 = cv_merge ops cv1 cv2"

definition compare_endpoints_xy_2_object :: "Arr_Bezier_curve_traits_2 \<Rightarrow> Compare_endpoints_xy_2" where
  "compare_endpoints_xy_2_object tr = Compare_endpoints_xy_2"

fun Compare_endpoints_xy_2_call ::
  "'o Arc_ops \<Rightarrow> Compare_endpoints_xy_2 \<Rightarrow> X_monotone_curve_2 \<Rightarrow> Comparison_result" where
  "Compare_endpoints_xy_2_call ops Compare_endpoints_xy_2 cv =
     (if cv_is_directed_right ops cv then SMALLER else LARGER)"

definition construct_opposite_2_object :: "Arr_Bezier_curve_traits_2 \<Rightarrow> Construct_opposite_2" where
  "construct_opposite_2_object tr = Construct_opposite_2"

fun Construct_opposite_2_call ::
  "'o Arc_ops \<Rightarrow> Construct_opposite_2 \<Rightarrow> X_monotone_curve_2 \<Rightarrow> X_monotone_curve_2" where
  "Construct_opposite_2_call ops Construct_opposite_2 cv = cv_flip ops cv"

text \<open>
  The result of a call together with its C++ type: a \<^verbatim>\<open>bool\<close> and a
  \<^verbatim>\<open>Comparison_result\<close> are different values.
\<close>

datatype Value = Bool_value bool | Comparison_value Comparison_result

section \<open>Example inputs\<close>

text \<open>
  A cubic with control points (0,0), (3,0), (3,3), (0,3): X(t) = 9t - 9t*t, with one
  vertical tangency at t = 1/2; and candidate bounds used to run the definitions.
\<close>

definition ex_curve :: Curve_2 where
  "ex_curve = \<lparr>curve_id = 7, control_points = [(0, 0), (3, 0), (3, 3), (0, 3)],
               x_polynomial = [0, 9, -9, 0], x_norm = 1\<rparr>"

definition ex_bbox :: Bez_point_bbox where
  "ex_bbox = \<lparr>min_x = 2, max_x = 9/4, min_y = 0, max_y = 3\<rparr>"

definition ex_lo :: Tang_pair where
  "ex_lo = (\<lparr>point_type = RATIONAL_PT, t_min = 1/4, t_max = 1/4, can_refine = True\<rparr>, ex_bbox)"

definition ex_hi :: Tang_pair where
  "ex_hi = (\<lparr>point_type = OTHER_PT, t_min = 5/8, t_max = 3/4, can_refine = True\<rparr>, ex_bbox)"

definition ex_unref :: Tang_pair where
  "ex_unref = (\<lparr>point_type = OTHER_PT, t_min = 3/8, t_max = 5/8, can_refine = False\<rparr>, ex_bbox)"

definition ex_bad :: Tang_pair where
  "ex_bad = (\<lparr>point_type = RATIONAL_PT, t_min = 1/4, t_max = 1/2, can_refine = True\<rparr>, ex_bbox)"

text \<open>Bounding traits and a root isolation that return fixed lists, and an empty output.\<close>

definition ex_fast_traits :: "Control_point_vec \<Rightarrow> Rational \<Rightarrow> Rational \<Rightarrow> Tang_pair list" where
  "ex_fast_traits cpts a b = [ex_hi, ex_lo]"

definition ex_unref_traits :: "Control_point_vec \<Rightarrow> Rational \<Rightarrow> Rational \<Rightarrow> Tang_pair list" where
  "ex_unref_traits cpts a b = [ex_hi, ex_unref, ex_lo]"

definition ex_isolate :: "Polynomial \<Rightarrow> Integer \<Rightarrow> Algebraic list" where
  "ex_isolate p n = [1/2]"

definition ex_oi :: "Object OutputIterator" where
  "ex_oi = \<lparr>emitted = [], increments = 0\<rparr>"

text \<open>Two default-constructed facades at the addresses 0 and 1, and a copy of the first at 2.\<close>

definition ex_world :: world where
  "ex_world =
     \<lparr>objs = (\<lambda>a. None)
        (0 := Some \<lparr>m_cache = 0, m_inter_map = 1, m_owner = True\<rparr>,
         1 := Some \<lparr>m_cache = 2, m_inter_map = 3, m_owner = True\<rparr>),
      tables = [Some (Cache_cell empty_cache), Some (Imap_cell []),
                Some (Cache_cell empty_cache), Some (Imap_cell [])]\<rparr>"

definition ex_world_copy :: world where
  "ex_world_copy =
     ex_world\<lparr>objs := (objs ex_world)(2 := Some \<lparr>m_cache = 0, m_inter_map = 1, m_owner = False\<rparr>)\<rparr>"

text \<open>A root isolation that returns two parameters.\<close>

definition ex_isolate_two :: "Polynomial \<Rightarrow> Integer \<Rightarrow> Algebraic list" where
  "ex_isolate_two p n = [1/4, 2/3]"

text \<open>
  Member functions to run the functors with, an arc, an arc whose two construction
  points coincide, and the first facade of \<open>ex_world\<close>.
\<close>

definition ex_ops :: "Object Arc_ops" where
  "ex_ops =
     \<lparr>pt_compare_x = (\<lambda>p q c. (EQUAL, c)),
      pt_compare_xy = (\<lambda>p q c. (if p = q then EQUAL else SMALLER, c)),
      pt_equals = (\<lambda>p q c. (p = q, c)),
      cv_left = ps,
      cv_right = pt,
      cv_is_vertical = (\<lambda>cv. False),
      cv_point_position = (\<lambda>cv p c. (EQUAL, c)),
      cv_compare_to_left = (\<lambda>cv1 cv2 p c. (EQUAL, c)),
      cv_compare_to_right = (\<lambda>cv1 cv2 p c. (EQUAL, c)),
      cv_equals = (\<lambda>cv1 cv2 c. (cv1 = cv2, c)),
      cv_split = (\<lambda>cv p. (cv\<lparr>pt := p\<rparr>, cv\<lparr>ps := p\<rparr>)),
      cv_intersect = (\<lambda>cv1 cv2 imap c oi.
         (oi, imap, c\<lparr>intersect_map := ((curve_id (supp_curve cv1), curve_id (supp_curve cv2)), [])
                                          # intersect_map c\<rparr>)),
      cv_can_merge_with = (\<lambda>cv1 cv2. pt cv1 = ps cv2),
      cv_merge = (\<lambda>cv1 cv2. cv1\<lparr>pt := pt cv2\<rparr>),
      cv_is_directed_right = (\<lambda>cv. True),
      cv_flip = (\<lambda>cv. cv\<lparr>ps := pt cv, pt := ps cv\<rparr>)\<rparr>"

definition ex_arc :: X_monotone_curve_2 where
  "ex_arc = \<lparr>supp_curve = ex_curve, ps = Point_2_rat ex_curve 0, pt = Point_2_rat ex_curve 1\<rparr>"

definition ex_point_arc :: X_monotone_curve_2 where
  "ex_point_arc = \<lparr>supp_curve = ex_curve, ps = Point_2_rat ex_curve 0, pt = Point_2_rat ex_curve 0\<rparr>"

definition ex_traits :: Arr_Bezier_curve_traits_2 where
  "ex_traits = \<lparr>m_cache = 0, m_inter_map = 1, m_owner = True\<rparr>"

section \<open>Properties of the selection\<close>

lemma locate_min_bound:
  "it_min < length tb \<Longrightarrow>
     t_min (fst (tb ! locate_min tb it_min iter)) \<le> t_min (fst (tb ! it_min)) \<and>
     (\<forall>j. iter \<le> j \<and> j < length tb \<longrightarrow>
        t_min (fst (tb ! locate_min tb it_min iter)) \<le> t_min (fst (tb ! j)))"
proof (induction tb it_min iter rule: locate_min.induct)
  case (1 tb it_min iter)
  show ?case
  proof (cases "iter < length tb")
    case False
    then show ?thesis
      by (subst (1 2) locate_min.simps) simp
  next
    case True
    define m where
      "m = (if compare (t_min (fst (tb ! iter))) (t_min (fst (tb ! it_min))) = SMALLER
            then iter else it_min)"
    have m: "m < length tb" using True "1.prems" by (simp add: m_def)
    have step: "locate_min tb it_min iter = locate_min tb m (Suc iter)"
      using True unfolding m_def by (subst locate_min.simps) simp
    define r where "r = locate_min tb m (Suc iter)"
    have IH1: "t_min (fst (tb ! r)) \<le> t_min (fst (tb ! m))"
      and IH2: "\<And>j. Suc iter \<le> j \<Longrightarrow> j < length tb \<Longrightarrow> t_min (fst (tb ! r)) \<le> t_min (fst (tb ! j))"
      using "1.IH" [OF True] m unfolding m_def r_def by blast+
    have m1: "t_min (fst (tb ! m)) \<le> t_min (fst (tb ! it_min))"
      by (simp add: m_def compare_def)
    have m2: "t_min (fst (tb ! m)) \<le> t_min (fst (tb ! iter))"
      by (simp add: m_def compare_def)
    have a: "t_min (fst (tb ! r)) \<le> t_min (fst (tb ! it_min))"
      using IH1 m1 by (rule order_trans)
    have b: "t_min (fst (tb ! r)) \<le> t_min (fst (tb ! j))" if "iter \<le> j \<and> j < length tb" for j
    proof (cases "j = iter")
      case True
      show ?thesis unfolding True using IH1 m2 by (rule order_trans)
    next
      case False
      then show ?thesis using that IH2 [of j] by simp
    qed
    show ?thesis
      unfolding step r_def [symmetric] using a b by blast
  qed
qed

lemma locate_min_minimal:
  assumes "tb \<noteq> []" and "c \<in> set tb"
  shows "t_min (fst (tb ! locate_min tb 0 1)) \<le> t_min (fst c)"
proof -
  have len: "0 < length tb" using assms(1) by simp
  obtain j where j: "j < length tb" "tb ! j = c"
    using assms(2) by (auto simp: in_set_conv_nth)
  show ?thesis
  proof (cases j)
    case 0
    then show ?thesis using locate_min_bound [OF len, of 1] j by simp
  next
    case (Suc k)
    then have "1 \<le> j \<and> j < length tb" using j by simp
    then show ?thesis using locate_min_bound [OF len, of 1] j by blast
  qed
qed

lemma mset_erase: "i < length xs \<Longrightarrow> add_mset (xs ! i) (mset (erase xs i)) = mset xs"
proof -
  assume i: "i < length xs"
  have "xs = take i xs @ xs ! i # drop (Suc i) xs"
    using i by (simp add: id_take_nth_drop)
  then have "mset xs = mset (take i xs @ xs ! i # drop (Suc i) xs)" by simp
  then show ?thesis by (simp add: erase_def)
qed

lemma set_erase_subset: "set (erase xs i) \<subseteq> set xs"
  by (auto simp: erase_def dest: in_set_takeD in_set_dropD)

lemma mset_selection_order: "mset (selection_order tb) = mset tb"
proof (induction tb rule: selection_order.induct)
  case (1 tb)
  show ?case
  proof (cases "tb = []")
    case True
    then show ?thesis by (subst selection_order.simps) simp
  next
    case False
    then have lt: "locate_min tb 0 1 < length tb" by (simp add: locate_min_less)
    have "mset (selection_order tb) =
          add_mset (tb ! locate_min tb 0 1) (mset (selection_order (erase tb (locate_min tb 0 1))))"
      using False by (subst selection_order.simps) (simp add: Let_def)
    also have "\<dots> = add_mset (tb ! locate_min tb 0 1) (mset (erase tb (locate_min tb 0 1)))"
      using "1.IH" [OF False refl] by simp
    also have "\<dots> = mset tb" using mset_erase [OF lt] .
    finally show ?thesis .
  qed
qed

lemma set_selection_order: "set (selection_order tb) = set tb"
  using mset_selection_order [of tb] by (metis set_mset_mset)

lemma length_selection_order: "length (selection_order tb) = length tb"
  using mset_selection_order [of tb] by (metis size_mset)

lemma sorted_selection_order: "sorted (map (\<lambda>c. t_min (fst c)) (selection_order tb))"
proof (induction tb rule: selection_order.induct)
  case (1 tb)
  show ?case
  proof (cases "tb = []")
    case True
    then show ?thesis by (subst selection_order.simps) simp
  next
    case False
    let ?i = "locate_min tb 0 1"
    have unfold: "selection_order tb = tb ! ?i # selection_order (erase tb ?i)"
      using False by (subst selection_order.simps) (simp add: Let_def)
    have rest: "sorted (map (\<lambda>c. t_min (fst c)) (selection_order (erase tb ?i)))"
      using "1.IH" [OF False refl] .
    have "\<forall>c \<in> set (selection_order (erase tb ?i)). t_min (fst (tb ! ?i)) \<le> t_min (fst c)"
      using locate_min_minimal [OF False] set_erase_subset [of tb ?i]
      by (auto simp: set_selection_order)
    then show ?thesis unfolding unfold using rest by simp
  qed
qed

section \<open>The consumption loop and the emission loops in closed form\<close>

lemma make_tang_point_eq:
  "make_tang_point B (fst c) (snd c) =
     (if rational_collapsed c then Inr (spec_tang_point B c) else Inl Assertion_violation)"
  by (cases "point_type (fst c)")
     (auto simp: make_tang_point_def rational_collapsed_def spec_tang_point_def compare_def
        set_bbox_def Point_2_rat_def add_originator_def Point_2_default_def Originator_of_def)

lemma list_all_erase:
  assumes "i < length xs"
  shows "list_all P xs \<longleftrightarrow> P (xs ! i) \<and> list_all P (erase xs i)"
proof -
  have "set_mset (mset xs) = set_mset (add_mset (xs ! i) (mset (erase xs i)))"
    using mset_erase [OF assms] by simp
  then have "set xs = insert (xs ! i) (set (erase xs i))" by simp
  then show ?thesis by (simp add: list_all_iff)
qed

lemma approx_loop_char:
  "approx_loop B tb acc =
     (if list_all rational_collapsed (takeWhile (\<lambda>c. can_refine (fst c)) (selection_order tb))
      then Inr (list_all (\<lambda>c. can_refine (fst c)) tb,
                acc @ map (spec_tang_point B) (takeWhile (\<lambda>c. can_refine (fst c)) (selection_order tb)))
      else Inl Assertion_violation)"
proof (induction B tb acc rule: approx_loop.induct)
  case (1 B tb acc)
  show ?case
  proof (cases "tb = []")
    case True
    then show ?thesis
      by (subst approx_loop.simps, subst (1 2) selection_order.simps) simp
  next
    case False
    define i where "i = locate_min tb 0 1"
    define c where "c = tb ! i"
    have i: "i < length tb" using False by (simp add: i_def locate_min_less)
    have sel: "selection_order tb = c # selection_order (erase tb i)"
      using False unfolding c_def i_def by (subst selection_order.simps) (simp add: Let_def)
    have all: "list_all (\<lambda>c. can_refine (fst c)) tb \<longleftrightarrow>
               can_refine (fst c) \<and> list_all (\<lambda>c. can_refine (fst c)) (erase tb i)"
      unfolding c_def by (rule list_all_erase [OF i])
    show ?thesis
    proof (cases "can_refine (fst c)")
      case nref: False
      have "approx_loop B tb acc = Inr (False, acc)"
        using False nref unfolding c_def i_def
        by (subst approx_loop.simps) (simp add: Let_def)
      then show ?thesis using nref all by (simp add: sel)
    next
      case ref: True
      show ?thesis
      proof (cases "rational_collapsed c")
        case bad: False
        have "approx_loop B tb acc = Inl Assertion_violation"
          using False ref bad make_tang_point_eq [of B c] unfolding c_def i_def
          by (subst approx_loop.simps) (simp add: Let_def)
        then show ?thesis using ref bad by (simp add: sel)
      next
        case good: True
        have mk: "make_tang_point B (fst (tb ! locate_min tb 0 1)) (snd (tb ! locate_min tb 0 1)) =
                  Inr (spec_tang_point B c)"
          using good make_tang_point_eq [of B c] unfolding c_def i_def by simp
        have "approx_loop B tb acc = approx_loop B (erase tb i) (acc @ [spec_tang_point B c])"
          using False ref mk unfolding c_def i_def
          by (subst approx_loop.simps) (simp add: Let_def)
        also have "\<dots> =
          (if list_all rational_collapsed
                (takeWhile (\<lambda>c. can_refine (fst c)) (selection_order (erase tb i)))
           then Inr (list_all (\<lambda>c. can_refine (fst c)) (erase tb i),
                     (acc @ [spec_tang_point B c]) @
                     map (spec_tang_point B)
                       (takeWhile (\<lambda>c. can_refine (fst c)) (selection_order (erase tb i))))
           else Inl Assertion_violation)"
          using "1.IH" [OF False refl refl refl _ mk] ref unfolding c_def i_def by simp
        finally show ?thesis using ref good all by (simp add: sel)
      qed
    qed
  qed
qed

lemma emit_approx_eq:
  "emit_approx B p0 pts oi =
     (last (p0 # pts),
      \<lparr>emitted = emitted oi @ map make_object (arcs_between B (p0 # pts)),
       increments = increments oi + length pts\<rparr>)"
  by (induction pts arbitrary: p0 oi) (simp_all add: oi_assign_def oi_incr_def)

lemma emit_exact_eq:
  "emit_exact B p0 ts oi =
     (last (p0 # map (Point_2_alg B) ts),
      \<lparr>emitted = emitted oi @ map make_object (arcs_between B (p0 # map (Point_2_alg B) ts)),
       increments = increments oi + length ts\<rparr>)"
  by (induction ts arbitrary: p0 oi) (simp_all add: oi_assign_def oi_incr_def Let_def)

lemma arcs_between_snoc:
  "pts \<noteq> [] \<Longrightarrow>
     arcs_between B (pts @ [q]) = arcs_between B pts @ [\<lparr>supp_curve = B, ps = last pts, pt = q\<rparr>]"
  by (induction B pts rule: arcs_between.induct) simp_all

lemma length_arcs_between: "length (arcs_between B pts) = length pts - 1"
  by (induction B pts rule: arcs_between.induct) simp_all

lemma nth_arcs_between:
  "Suc i < length pts \<Longrightarrow>
     arcs_between B pts ! i = \<lparr>supp_curve = B, ps = pts ! i, pt = pts ! Suc i\<rparr>"
proof (induction B pts arbitrary: i rule: arcs_between.induct)
  case (1 B p q rest)
  then show ?case by (cases i) simp_all
qed simp_all

lemma list_all_selection_order: "list_all P (selection_order tb) = list_all P tb"
  by (simp add: list_all_iff set_selection_order)

lemma takeWhile_all: "list_all P xs \<Longrightarrow> takeWhile P xs = xs"
  by (simp add: list_all_iff)

lemma Make_x_monotone_2_fast:
  assumes "list_all (\<lambda>c. can_refine (fst c)) (vtp (control_points B) 0 1)"
    and "list_all rational_collapsed (vtp (control_points B) 0 1)"
  shows "Make_x_monotone_2 vtp isolate cache B oi =
     Inr (\<lparr>emitted = emitted oi @ map make_object
             (arcs_between B (Point_2_rat B 0 #
                map (spec_tang_point B) (selection_order (vtp (control_points B) 0 1)) @
                [Point_2_rat B 1])),
           increments = increments oi + length (vtp (control_points B) 0 1)\<rparr>, cache)"
proof -
  define tb where "tb = vtp (control_points B) 0 1"
  have tw: "takeWhile (\<lambda>c. can_refine (fst c)) (selection_order tb) = selection_order tb"
    using assms(1) unfolding tb_def [symmetric]
    by (simp add: takeWhile_all list_all_selection_order)
  have loop: "approx_loop B tb [] = Inr (True, map (spec_tang_point B) (selection_order tb))"
    using assms unfolding tb_def [symmetric]
    by (subst approx_loop_char) (simp add: tw list_all_selection_order)
  have snoc: "arcs_between B ((Point_2_rat B 0 # pts) @ [q]) =
      arcs_between B (Point_2_rat B 0 # pts) @
      [\<lparr>supp_curve = B, ps = last (Point_2_rat B 0 # pts), pt = q\<rparr>]" for pts q
    by (rule arcs_between_snoc) simp
  show ?thesis
    unfolding Make_x_monotone_2_def tb_def [symmetric] Let_def loop
    using snoc [of "map (spec_tang_point B) (selection_order tb)" "Point_2_rat B 1"]
    by (simp add: emit_approx_eq oi_assign_def length_selection_order)
qed

lemma Make_x_monotone_2_exact:
  assumes "\<not> list_all (\<lambda>c. can_refine (fst c)) (vtp (control_points B) 0 1)"
    and "list_all rational_collapsed
           (takeWhile (\<lambda>c. can_refine (fst c)) (selection_order (vtp (control_points B) 0 1)))"
    and "get_vertical_tangencies isolate cache (curve_id B) (x_polynomial B) (x_norm B) =
           (vt_list, cache1)"
  shows "Make_x_monotone_2 vtp isolate cache B oi =
     Inr (\<lparr>emitted = emitted oi @ map make_object
             (arcs_between B (Point_2_rat B 0 # map (Point_2_alg B) vt_list @ [Point_2_rat B 1])),
           increments = increments oi + length vt_list\<rparr>, cache1)"
proof -
  define tb where "tb = vtp (control_points B) 0 1"
  have loop: "approx_loop B tb [] =
     Inr (False, map (spec_tang_point B)
                   (takeWhile (\<lambda>c. can_refine (fst c)) (selection_order tb)))"
    using assms(1,2) unfolding tb_def [symmetric]
    by (subst approx_loop_char) simp
  have snoc: "arcs_between B ((Point_2_rat B 0 # pts) @ [q]) =
      arcs_between B (Point_2_rat B 0 # pts) @
      [\<lparr>supp_curve = B, ps = last (Point_2_rat B 0 # pts), pt = q\<rparr>]" for pts q
    by (rule arcs_between_snoc) simp
  show ?thesis
    unfolding Make_x_monotone_2_def tb_def [symmetric] Let_def loop assms(3)
    using snoc [of "map (Point_2_alg B) vt_list" "Point_2_rat B 1"]
    by (simp add: emit_exact_eq oi_assign_def)
qed

lemma Make_x_monotone_2_assert:
  assumes "\<not> list_all rational_collapsed
           (takeWhile (\<lambda>c. can_refine (fst c)) (selection_order (vtp (control_points B) 0 1)))"
  shows "Make_x_monotone_2 vtp isolate cache B oi = Inl Assertion_violation"
  unfolding Make_x_monotone_2_def Let_def
  using assms by (subst approx_loop_char) simp

lemma set_selected_before_break: "set (selected_before_break tb) \<subseteq> set tb"
  unfolding selected_before_break_def
  using set_takeWhileD set_selection_order by fastforce

lemma collapsed_selected_before_break:
  "list_all rational_collapsed tb \<Longrightarrow> list_all rational_collapsed (selected_before_break tb)"
  using set_selected_before_break [of tb] by (auto simp: list_all_iff)

lemma selected_before_break_all:
  "list_all (\<lambda>c. can_refine (fst c)) tb \<Longrightarrow> selected_before_break tb = selection_order tb"
  unfolding selected_before_break_def
  by (simp add: takeWhile_all list_all_selection_order)

lemma refinable_selected_before_break:
  "list_all (\<lambda>c. can_refine (fst c)) (selected_before_break tb)"
  unfolding selected_before_break_def list_all_iff
  using set_takeWhileD by fastforce

lemma sorted_selected_before_break:
  "sorted (map (\<lambda>c. t_min (fst c)) (selected_before_break tb))"
proof -
  have "sorted (map (\<lambda>c. t_min (fst c))
          (takeWhile (\<lambda>c. can_refine (fst c)) (selection_order tb) @
           dropWhile (\<lambda>c. can_refine (fst c)) (selection_order tb)))"
    using sorted_selection_order [of tb] by simp
  then show ?thesis
    unfolding selected_before_break_def map_append sorted_append by blast
qed

lemma approx_loop_result:
  "approx_loop B tb acc =
     (if list_all rational_collapsed (selected_before_break tb)
      then Inr (list_all (\<lambda>c. can_refine (fst c)) tb,
                acc @ map (spec_tang_point B) (selected_before_break tb))
      else Inl Assertion_violation)"
  unfolding selected_before_break_def by (rule approx_loop_char)

lemma arcs_chain:
  fixes B :: Curve_2 and p0 p1 :: Point_2 and mid :: "Point_2 list"
  defines "arcs \<equiv> arcs_between B (p0 # mid @ [p1])"
  shows "length arcs = Suc (length mid)"
    and "ps (hd arcs) = p0"
    and "pt (last arcs) = p1"
    and "\<forall>i. Suc i < length arcs \<longrightarrow> pt (arcs ! i) = ps (arcs ! Suc i)"
    and "\<forall>a \<in> set arcs. supp_curve a = B"
    and "map pt (butlast arcs) = mid"
    and "map ps (tl arcs) = mid"
proof -
  let ?pts = "p0 # mid @ [p1]"
  have len: "length arcs = Suc (length mid)"
    unfolding arcs_def by (simp add: length_arcs_between)
  have nth: "arcs ! i = \<lparr>supp_curve = B, ps = ?pts ! i, pt = ?pts ! Suc i\<rparr>"
    if "i < Suc (length mid)" for i
    unfolding arcs_def using that by (intro nth_arcs_between) simp
  have ne: "arcs \<noteq> []" using len by auto
  show "length arcs = Suc (length mid)" by (rule len)
  show "ps (hd arcs) = p0"
    using nth [of 0] ne by (simp add: hd_conv_nth)
  have "pt (last arcs) = ?pts ! Suc (length mid)"
    using nth [of "length mid"] ne len by (simp add: last_conv_nth)
  also have "\<dots> = p1" by (simp add: nth_append)
  finally show "pt (last arcs) = p1" .
  show "\<forall>i. Suc i < length arcs \<longrightarrow> pt (arcs ! i) = ps (arcs ! Suc i)"
    using nth len by simp
  show "\<forall>a \<in> set arcs. supp_curve a = B"
    using nth len by (auto simp: in_set_conv_nth)
  show "map pt (butlast arcs) = mid"
  proof (rule nth_equalityI)
    show "length (map pt (butlast arcs)) = length mid" using len by simp
    fix i assume "i < length (map pt (butlast arcs))"
    then have i: "i < length mid" using len by simp
    then have "map pt (butlast arcs) ! i = pt (arcs ! i)"
      using len by (simp add: nth_butlast)
    also have "\<dots> = ?pts ! Suc i" using nth [of i] i by simp
    also have "\<dots> = mid ! i" using i by (simp add: nth_append)
    finally show "map pt (butlast arcs) ! i = mid ! i" .
  qed
  show "map ps (tl arcs) = mid"
  proof (rule nth_equalityI)
    show "length (map ps (tl arcs)) = length mid" using len by simp
    fix i assume "i < length (map ps (tl arcs))"
    then have i: "i < length mid" using len by simp
    then have "map ps (tl arcs) ! i = ps (arcs ! Suc i)"
      using len by (simp add: nth_tl)
    also have "\<dots> = ?pts ! Suc i" using nth [of "Suc i"] i by simp
    also have "\<dots> = mid ! i" using i by (simp add: nth_append)
    finally show "map ps (tl arcs) ! i = mid ! i" .
  qed
qed

lemma Make_x_monotone_2_Inr_cases:
  assumes "Make_x_monotone_2 vtp isolate cache B oi = Inr (oi', cache')"
  obtains mid where "emitted oi' = emitted oi @
           map make_object (arcs_between B (Point_2_rat B 0 # mid @ [Point_2_rat B 1]))"
    and "list_all (\<lambda>c. can_refine (fst c)) (vtp (control_points B) 0 1) \<longrightarrow>
           mid = map (spec_tang_point B) (selection_order (vtp (control_points B) 0 1))"
proof -
  define tb where "tb = vtp (control_points B) 0 1"
  have pre: "list_all rational_collapsed (selected_before_break tb)"
  proof (rule ccontr)
    assume "\<not> ?thesis"
    then have "Make_x_monotone_2 vtp isolate cache B oi = Inl Assertion_violation"
      unfolding tb_def selected_before_break_def by (rule Make_x_monotone_2_assert)
    then show False using assms by simp
  qed
  show thesis
  proof (cases "list_all (\<lambda>c. can_refine (fst c)) tb")
    case True
    then have "list_all rational_collapsed tb"
      using pre by (simp add: selected_before_break_all list_all_selection_order)
    then have "Make_x_monotone_2 vtp isolate cache B oi =
       Inr (\<lparr>emitted = emitted oi @ map make_object
             (arcs_between B (Point_2_rat B 0 #
                map (spec_tang_point B) (selection_order tb) @ [Point_2_rat B 1])),
           increments = increments oi + length tb\<rparr>, cache)"
      using True unfolding tb_def by (intro Make_x_monotone_2_fast)
    then have "emitted oi' = emitted oi @ map make_object
             (arcs_between B (Point_2_rat B 0 #
                map (spec_tang_point B) (selection_order tb) @ [Point_2_rat B 1]))"
      using assms by auto
    then show ?thesis using that unfolding tb_def by blast
  next
    case False
    obtain vt_list cache1 where g:
      "get_vertical_tangencies isolate cache (curve_id B) (x_polynomial B) (x_norm B) =
         (vt_list, cache1)"
      by fastforce
    have "Make_x_monotone_2 vtp isolate cache B oi =
       Inr (\<lparr>emitted = emitted oi @ map make_object
             (arcs_between B (Point_2_rat B 0 # map (Point_2_alg B) vt_list @ [Point_2_rat B 1])),
           increments = increments oi + length vt_list\<rparr>, cache1)"
      using False pre g unfolding tb_def selected_before_break_def
      by (intro Make_x_monotone_2_exact)
    then have "emitted oi' = emitted oi @ map make_object
             (arcs_between B (Point_2_rat B 0 # map (Point_2_alg B) vt_list @ [Point_2_rat B 1]))"
      using assms by auto
    then show ?thesis using that False unfolding tb_def by blast
  qed
qed

lemma Make_x_monotone_2_total:
  assumes "list_all rational_collapsed (vtp (control_points B) 0 1)"
  shows "\<exists>r. Make_x_monotone_2 vtp isolate cache B oi = Inr r"
proof (cases "list_all (\<lambda>c. can_refine (fst c)) (vtp (control_points B) 0 1)")
  case True
  then show ?thesis using Make_x_monotone_2_fast [of vtp B isolate cache oi] assms by blast
next
  case False
  obtain vt_list cache1 where g:
    "get_vertical_tangencies isolate cache (curve_id B) (x_polynomial B) (x_norm B) =
       (vt_list, cache1)"
    by fastforce
  have "list_all rational_collapsed
           (takeWhile (\<lambda>c. can_refine (fst c)) (selection_order (vtp (control_points B) 0 1)))"
    using collapsed_selected_before_break [OF assms] unfolding selected_before_break_def .
  then show ?thesis using Make_x_monotone_2_exact [of vtp B isolate cache vt_list cache1 oi] False g by blast
qed

lemma arcs_between_endpoints:
  "a \<in> set (arcs_between B pts) \<Longrightarrow> ps a \<in> set pts \<and> pt a \<in> set pts"
  by (induction B pts rule: arcs_between.induct) auto

lemma bbox_spec_tang_point: "bbox (spec_tang_point B c) = Some (snd c)"
  by (simp add: spec_tang_point_def)

lemma approx_loop_Inr:
  assumes "approx_loop B tb [] = Inr (ok, tang_points)"
  shows "tang_points = map (spec_tang_point B) (selected_before_break tb)"
    and "ok = list_all (\<lambda>c. can_refine (fst c)) tb"
    and "list_all rational_collapsed (selected_before_break tb)"
  using assms unfolding approx_loop_result [of B tb "[]"]
  by (auto split: if_splits)

lemma ex_selection_fast: "selection_order [ex_hi, ex_lo] = [ex_lo, ex_hi]"
  by (simp add: selection_order.simps locate_min.simps ex_hi_def ex_lo_def compare_def erase_def)

lemma ex_selection_unref: "selection_order [ex_hi, ex_unref, ex_lo] = [ex_lo, ex_unref, ex_hi]"
  by (simp add: selection_order.simps locate_min.simps ex_hi_def ex_lo_def ex_unref_def
      compare_def erase_def)

lemma ex_flags:
  "can_refine (fst ex_hi)" "can_refine (fst ex_lo)" "can_refine (fst ex_bad)"
  "\<not> can_refine (fst ex_unref)"
  "rational_collapsed ex_hi" "rational_collapsed ex_lo" "rational_collapsed ex_unref"
  "\<not> rational_collapsed ex_bad"
  by (simp_all add: ex_hi_def ex_lo_def ex_bad_def ex_unref_def rational_collapsed_def)

lemma enclosing_arrangement_sorted:
  assumes "sorted_wrt (<) vts" and "list_all2 encloses cs vts"
    and "distinct cs"
    and "\<forall>c \<in> set cs. \<forall>d \<in> set cs. c \<noteq> d \<longrightarrow>
        t_max (fst c) < t_min (fst d) \<or> t_max (fst d) < t_min (fst c)"
  shows "sorted_wrt (<) (map (\<lambda>c. t_min (fst c)) cs)"
proof -
  have len: "length cs = length vts" using assms(2) by (rule list_all2_lengthD)
  have "t_min (fst (cs ! i)) < t_min (fst (cs ! j))" if "i < j" "j < length cs" for i j
  proof -
    have i: "i < length cs" using that by simp
    have vi: "encloses (cs ! i) (vts ! i)" and vj: "encloses (cs ! j) (vts ! j)"
      using assms(2) i that(2) by (simp_all add: list_all2_nthD)
    have lt: "vts ! i < vts ! j"
      using assms(1) that len by (simp add: sorted_wrt_iff_nth_less)
    have ne: "cs ! i \<noteq> cs ! j"
      using assms(3) that i by (simp add: nth_eq_iff_index_eq)
    have dis: "t_max (fst (cs ! i)) < t_min (fst (cs ! j)) \<or>
               t_max (fst (cs ! j)) < t_min (fst (cs ! i))"
      using assms(4) ne i that(2) by (meson nth_mem)
    have not_rev: "\<not> t_max (fst (cs ! j)) < t_min (fst (cs ! i))"
    proof
      assume "t_max (fst (cs ! j)) < t_min (fst (cs ! i))"
      then have "(of_rat (t_max (fst (cs ! j))) :: real) < of_rat (t_min (fst (cs ! i)))"
        by (simp add: of_rat_less)
      then show False using vi vj lt unfolding encloses_def by linarith
    qed
    have "(of_rat (t_min (fst (cs ! i))) :: real) \<le> of_rat (t_max (fst (cs ! i)))"
      using vi unfolding encloses_def by linarith
    then have "t_min (fst (cs ! i)) \<le> t_max (fst (cs ! i))" by (simp add: of_rat_less_eq)
    then show ?thesis using dis not_rev by linarith
  qed
  then show ?thesis by (simp add: sorted_wrt_iff_nth_less)
qed

lemma selection_order_encloses:
  assumes "candidates_isolate tb vts"
  shows "list_all2 encloses (selection_order tb) vts"
proof -
  let ?f = "\<lambda>c. t_min (fst c)"
  obtain cs where cs: "mset cs = mset tb" "list_all2 encloses cs vts"
    using assms unfolding candidates_isolate_def by blast
  have set_cs: "set cs = set tb" using cs(1) by (rule mset_eq_setD)
  have dist: "distinct cs"
    using assms cs(1) unfolding candidates_isolate_def disjoint_bounds_def
    by (metis mset_eq_imp_distinct_iff)
  have pair: "\<forall>c \<in> set cs. \<forall>d \<in> set cs. c \<noteq> d \<longrightarrow>
        t_max (fst c) < t_min (fst d) \<or> t_max (fst d) < t_min (fst c)"
    using assms unfolding candidates_isolate_def disjoint_bounds_def set_cs by blast
  have strict: "sorted_wrt (<) (map ?f cs)"
    using assms cs(2) dist pair unfolding candidates_isolate_def
    by (intro enclosing_arrangement_sorted) blast+
  then have sorted_cs: "sorted (map ?f cs)" and distinct_cs: "distinct (map ?f cs)"
    by (simp_all add: strict_sorted_iff)
  have "mset (map ?f (selection_order tb)) = mset (map ?f cs)"
    by (simp add: mset_selection_order cs(1))
  then have "sort (map ?f cs) = map ?f (selection_order tb)"
    using sorted_selection_order [of tb] by (intro properties_for_sort) simp_all
  then have keys: "map ?f (selection_order tb) = map ?f cs"
    using sorted_cs by (simp add: sorted_sort_id)
  have "inj_on ?f (set cs)" using distinct_cs by (simp add: distinct_map)
  then have "inj_on ?f (set (selection_order tb) \<union> set cs)"
    by (simp add: set_selection_order set_cs)
  then have "selection_order tb = cs"
    using keys by (simp add: inj_on_map_eq_map)
  then show ?thesis using cs(2) by simp
qed

lemma spec_tang_point_denotes:
  assumes "encloses c v" and "rational_collapsed c"
  shows "same_parameter (spec_tang_point B c) (Point_2_alg B v)"
proof -
  have "denotes (spec_tang_point B c) v"
  proof (cases "point_type (fst c) = RATIONAL_PT")
    case True
    then have "t_min (fst c) = t_max (fst c)" using assms(2) by (simp add: rational_collapsed_def)
    then have "of_rat (t_min (fst c)) = v" using assms(1) unfolding encloses_def by simp
    then show ?thesis using True by (simp add: denotes_def spec_tang_point_def)
  next
    case False
    then show ?thesis using assms(1) by (simp add: denotes_def spec_tang_point_def encloses_def)
  qed
  moreover have "denotes (Point_2_alg B v) v" by (simp add: denotes_def Point_2_alg_def)
  ultimately show ?thesis unfolding same_parameter_def by blast
qed

lemma same_parameter_rat: "same_parameter (Point_2_rat B t) (Point_2_rat B t)"
  unfolding same_parameter_def by (simp add: denotes_def Point_2_rat_def)

lemma arcs_between_agree:
  "list_all2 same_parameter pts qts \<Longrightarrow>
     list_all2 arcs_agree (arcs_between B pts) (arcs_between B qts)"
proof (induction B pts arbitrary: qts rule: arcs_between.induct)
  case (1 B p q rest)
  then obtain p' q' rest' where qts: "qts = p' # q' # rest'"
    and h: "same_parameter p p'" "same_parameter q q'" "list_all2 same_parameter rest rest'"
    by (auto simp: list_all2_Cons1)
  have tail: "list_all2 arcs_agree (arcs_between B (q # rest)) (arcs_between B (q' # rest'))"
    using "1.IH" [of "q' # rest'"] h by simp
  have head: "arcs_agree \<lparr>supp_curve = B, ps = p, pt = q\<rparr> \<lparr>supp_curve = B, ps = p', pt = q'\<rparr>"
    using h by (simp add: arcs_agree_def)
  show ?case unfolding qts using head tail by simp
qed (auto simp: list_all2_Cons1)

section \<open>Properties of the ownership discipline\<close>

lemma allocated_append: "allocated h p \<Longrightarrow> allocated (h @ h') p"
  by (auto simp: allocated_def nth_append)

lemma allocated_fresh: "\<not> allocated h (length h)" "\<not> allocated h (Suc (length h))"
  by (simp_all add: allocated_def)

lemma allocated_update: "allocated h p \<Longrightarrow> p \<noteq> q \<Longrightarrow> allocated (h[q := None]) p"
  by (simp add: allocated_def)

lemma allocated_new: "allocated (h @ [Some u, Some v]) (length h)"
  "allocated (h @ [Some u, Some v]) (Suc (length h))"
  by (simp_all add: allocated_def nth_append)

lemma default_ctor_unfold:
  "objs w this = None \<Longrightarrow>
     default_ctor this w =
       Inr (w\<lparr>objs := (objs w)(this := Some \<lparr>m_cache = length (tables w),
                 m_inter_map = Suc (length (tables w)), m_owner = True\<rparr>),
              tables := tables w @ [Some (Cache_cell empty_cache), Some (Imap_cell [])]\<rparr>)"
  by (simp add: default_ctor_def new_cell_def)

lemma dtor_owner_unfold:
  assumes "objs w this = Some x" "m_owner x" "allocated (tables w) (m_cache x)"
    "allocated (tables w) (m_inter_map x)" "m_cache x \<noteq> m_inter_map x"
  shows "dtor this w =
     Inr (w\<lparr>objs := (objs w)(this := None),
            tables := (tables w)[m_cache x := None, m_inter_map x := None]\<rparr>)"
  using assms by (simp add: dtor_def delete_cell_def allocated_update)

lemma orphan_mono:
  assumes "orphan w a"
    and "allocated (tables w) a \<Longrightarrow> allocated (tables w') a"
    and "\<And>z fz. objs w' z = Some fz \<Longrightarrow> m_owner fz \<Longrightarrow> objs w z = Some fz"
  shows "orphan w' a"
  using assms unfolding orphan_def by blast

lemma exec_orphan:
  assumes "exec w act = Inr w'" and "orphan w a"
  shows "orphan w' a"
proof (cases act)
  case (Construct this)
  then have n: "objs w this = None"
    using assms(1) by (auto simp: default_ctor_def split: option.splits)
  have a: "a < length (tables w)" using assms(2) by (simp add: orphan_def allocated_def)
  have w': "w' = w\<lparr>objs := (objs w)(this := Some \<lparr>m_cache = length (tables w),
                 m_inter_map = Suc (length (tables w)), m_owner = True\<rparr>),
              tables := tables w @ [Some (Cache_cell empty_cache), Some (Imap_cell [])]\<rparr>"
    using assms(1) Construct default_ctor_unfold [OF n] by simp
  have alloc: "allocated (tables w') a"
    using assms(2) unfolding w' by (simp add: orphan_def allocated_append)
  have own: "m_cache fz \<noteq> a \<and> m_inter_map fz \<noteq> a"
    if "objs w' z = Some fz" "m_owner fz" for z fz
  proof (cases "z = this")
    case True
    then show ?thesis using that a unfolding w' by auto
  next
    case False
    then have "objs w z = Some fz" using that unfolding w' by simp
    then show ?thesis using assms(2) that(2) unfolding orphan_def by blast
  qed
  show ?thesis unfolding orphan_def using alloc own by blast
next
  case (Copy this tr)
  then have n: "objs w this = None"
    using assms(1) by (auto simp: copy_ctor_def split: option.splits)
  obtain t where t: "objs w tr = Some t"
    using assms(1) Copy n by (cases "objs w tr") (auto simp: copy_ctor_def)
  have w': "w' = w\<lparr>objs := (objs w)(this := Some
        \<lparr>m_cache = m_cache t, m_inter_map = m_inter_map t, m_owner = False\<rparr>)\<rparr>"
    using assms(1) Copy n t by (simp add: copy_ctor_def)
  show ?thesis
    by (rule orphan_mono [OF assms(2)]) (auto simp: w' split: if_splits)
next
  case (Assign this tr)
  obtain x where x: "objs w this = Some x"
    using assms(1) Assign by (cases "objs w this") (auto simp: assign_def)
  obtain t where t: "objs w tr = Some t"
    using assms(1) Assign x by (cases "objs w tr") (auto simp: assign_def)
  show ?thesis
  proof (cases "this = tr")
    case True
    then have "w' = w" using assms(1) Assign x t by (simp add: assign_def)
    then show ?thesis using assms(2) by simp
  next
    case False
    then have w': "w' = w\<lparr>objs := (objs w)(this := Some
        (x\<lparr>m_cache := m_cache t, m_inter_map := m_inter_map t, m_owner := False\<rparr>))\<rparr>"
      using assms(1) Assign x t by (simp add: assign_def)
    show ?thesis
      by (rule orphan_mono [OF assms(2)]) (auto simp: w' split: if_splits)
  qed
next
  case (Destroy this)
  then obtain x where x: "objs w this = Some x"
    using assms(1) by (auto simp: dtor_def split: option.splits)
  show ?thesis
  proof (cases "m_owner x")
    case False
    then have w': "w' = w\<lparr>objs := (objs w)(this := None)\<rparr>"
      using assms(1) Destroy x by (simp add: dtor_def)
    show ?thesis
      by (rule orphan_mono [OF assms(2)]) (auto simp: w' split: if_splits)
  next
    case True
    then have ne: "m_cache x \<noteq> a" "m_inter_map x \<noteq> a"
      using assms(2) x unfolding orphan_def by blast+
    obtain h1 h2 where h: "delete_cell (tables w) (m_cache x) = Inr h1"
        "delete_cell h1 (m_inter_map x) = Inr h2"
        "w' = w\<lparr>objs := (objs w)(this := None), tables := h2\<rparr>"
      using assms(1) Destroy x True by (auto simp: dtor_def split: sum.splits)
    have "h1 = (tables w)[m_cache x := None]" "h2 = h1[m_inter_map x := None]"
      using h(1,2) by (auto simp: delete_cell_def split: if_splits)
    then have "allocated (tables w) a \<Longrightarrow> allocated h2 a"
      using ne by (simp add: allocated_update)
    then show ?thesis
      by (intro orphan_mono [OF assms(2)]) (auto simp: h(3) split: if_splits)
  qed
qed

lemma run_orphan:
  "run w acts = Inr w' \<Longrightarrow> orphan w a \<Longrightarrow> orphan w' a"
proof (induction acts arbitrary: w)
  case Nil
  then show ?case by simp
next
  case (Cons act acts)
  then obtain w1 where w1: "exec w act = Inr w1" "run w1 acts = Inr w'"
    by (auto split: sum.splits)
  show ?case using Cons.IH [OF w1(2)] exec_orphan [OF w1(1) Cons.prems(2)] .
qed

lemma owners_ok_mono:
  assumes "owners_ok w" and "tables w' = tables w"
    and "\<And>z fz. objs w' z = Some fz \<Longrightarrow> m_owner fz \<Longrightarrow> objs w z = Some fz"
  shows "owners_ok w'"
proof -
  have a: "allocated (tables w') (m_cache fx) \<and> allocated (tables w') (m_inter_map fx) \<and>
        m_cache fx \<noteq> m_inter_map fx" if "objs w' x = Some fx" "m_owner fx" for x fx
    using assms(1) assms(3) [OF that] that(2) unfolding owners_ok_def assms(2) by blast
  have b: "m_cache fx \<noteq> m_cache fy \<and> m_cache fx \<noteq> m_inter_map fy \<and>
        m_inter_map fx \<noteq> m_cache fy \<and> m_inter_map fx \<noteq> m_inter_map fy"
    if "objs w' x = Some fx" "objs w' y = Some fy" "m_owner fx" "m_owner fy" "x \<noteq> y" for x y fx fy
    using assms(1) assms(3) [OF that(1,3)] assms(3) [OF that(2,4)] that(3,4,5)
    unfolding owners_ok_def by blast
  show ?thesis unfolding owners_ok_def using a b by blast
qed

lemma owners_okD1:
  "owners_ok w \<Longrightarrow> objs w x = Some fx \<Longrightarrow> m_owner fx \<Longrightarrow>
     allocated (tables w) (m_cache fx) \<and> allocated (tables w) (m_inter_map fx) \<and>
     m_cache fx \<noteq> m_inter_map fx"
  unfolding owners_ok_def by blast

lemma owners_okD2:
  "owners_ok w \<Longrightarrow> objs w x = Some fx \<Longrightarrow> objs w y = Some fy \<Longrightarrow> m_owner fx \<Longrightarrow> m_owner fy \<Longrightarrow>
     x \<noteq> y \<Longrightarrow>
     m_cache fx \<noteq> m_cache fy \<and> m_cache fx \<noteq> m_inter_map fy \<and>
     m_inter_map fx \<noteq> m_cache fy \<and> m_inter_map fx \<noteq> m_inter_map fy"
  unfolding owners_ok_def by blast

lemma exec_owners_ok:
  assumes "exec w act = Inr w'" and "owners_ok w"
  shows "owners_ok w'"
proof (cases act)
  case (Construct this)
  then have n: "objs w this = None"
    using assms(1) by (auto simp: default_ctor_def split: option.splits)
  define fnew where "fnew = \<lparr>m_cache = length (tables w),
                 m_inter_map = Suc (length (tables w)), m_owner = True\<rparr>"
  have w': "w' = w\<lparr>objs := (objs w)(this := Some fnew),
              tables := tables w @ [Some (Cache_cell empty_cache), Some (Imap_cell [])]\<rparr>"
    using assms(1) Construct default_ctor_unfold [OF n] by (simp add: fnew_def)
  have old: "allocated (tables w') (m_cache fz) \<and> allocated (tables w') (m_inter_map fz) \<and>
        m_cache fz \<noteq> m_inter_map fz \<and> m_cache fz < length (tables w) \<and>
        m_inter_map fz < length (tables w)"
    if "objs w z = Some fz" "m_owner fz" for z fz
    using owners_okD1 [OF assms(2) that] unfolding w'
    by (simp add: allocated_append) (simp add: allocated_def)
  have new: "allocated (tables w') (m_cache fnew) \<and> allocated (tables w') (m_inter_map fnew) \<and>
        m_cache fnew \<noteq> m_inter_map fnew"
    unfolding w' fnew_def by (simp add: allocated_new)
  have objs': "objs w' z = (if z = this then Some fnew else objs w z)" for z
    unfolding w' by simp
  have a: "allocated (tables w') (m_cache fx) \<and> allocated (tables w') (m_inter_map fx) \<and>
        m_cache fx \<noteq> m_inter_map fx" if "objs w' x = Some fx" "m_owner fx" for x fx
  proof (cases "x = this")
    case True
    then have "fx = fnew" using that(1) objs' by simp
    then show ?thesis using new by simp
  next
    case False
    then have "objs w x = Some fx" using that(1) objs' by simp
    then show ?thesis using old that(2) by blast
  qed
  have b: "m_cache fx \<noteq> m_cache fy \<and> m_cache fx \<noteq> m_inter_map fy \<and>
        m_inter_map fx \<noteq> m_cache fy \<and> m_inter_map fx \<noteq> m_inter_map fy"
    if ox: "objs w' x = Some fx" and oy: "objs w' y = Some fy"
      and mx: "m_owner fx" and my: "m_owner fy" and ne: "x \<noteq> y" for x y fx fy
  proof -
    consider "x = this" "y \<noteq> this" | "x \<noteq> this" "y = this" | "x \<noteq> this" "y \<noteq> this"
      using ne by blast
    then show ?thesis
    proof cases
      case 1
      then have "fx = fnew" "objs w y = Some fy" using ox oy objs' by simp_all
      then show ?thesis using old [of y fy] my by (auto simp: fnew_def)
    next
      case 2
      then have "fy = fnew" "objs w x = Some fx" using ox oy objs' by simp_all
      then show ?thesis using old [of x fx] mx by (auto simp: fnew_def)
    next
      case 3
      then have "objs w x = Some fx" "objs w y = Some fy" using ox oy objs' by simp_all
      then show ?thesis using owners_okD2 [OF assms(2) _ _ mx my ne] by blast
    qed
  qed
  show ?thesis unfolding owners_ok_def using a b by blast
next
  case (Copy this tr)
  then have n: "objs w this = None"
    using assms(1) by (auto simp: copy_ctor_def split: option.splits)
  obtain t where t: "objs w tr = Some t"
    using assms(1) Copy n by (cases "objs w tr") (auto simp: copy_ctor_def)
  have w': "w' = w\<lparr>objs := (objs w)(this := Some
        \<lparr>m_cache = m_cache t, m_inter_map = m_inter_map t, m_owner = False\<rparr>)\<rparr>"
    using assms(1) Copy n t by (simp add: copy_ctor_def)
  show ?thesis
    by (rule owners_ok_mono [OF assms(2)]) (auto simp: w' split: if_splits)
next
  case (Assign this tr)
  obtain x where x: "objs w this = Some x"
    using assms(1) Assign by (cases "objs w this") (auto simp: assign_def)
  obtain t where t: "objs w tr = Some t"
    using assms(1) Assign x by (cases "objs w tr") (auto simp: assign_def)
  show ?thesis
  proof (cases "this = tr")
    case True
    then have "w' = w" using assms(1) Assign x t by (simp add: assign_def)
    then show ?thesis using assms(2) by simp
  next
    case False
    then have w': "w' = w\<lparr>objs := (objs w)(this := Some
        (x\<lparr>m_cache := m_cache t, m_inter_map := m_inter_map t, m_owner := False\<rparr>))\<rparr>"
      using assms(1) Assign x t by (simp add: assign_def)
    show ?thesis
      by (rule owners_ok_mono [OF assms(2)]) (auto simp: w' split: if_splits)
  qed
next
  case (Destroy this)
  then obtain x where x: "objs w this = Some x"
    using assms(1) by (auto simp: dtor_def split: option.splits)
  show ?thesis
  proof (cases "m_owner x")
    case False
    then have w': "w' = w\<lparr>objs := (objs w)(this := None)\<rparr>"
      using assms(1) Destroy x by (simp add: dtor_def)
    show ?thesis
      by (rule owners_ok_mono [OF assms(2)]) (auto simp: w' split: if_splits)
  next
    case True
    have dx: "allocated (tables w) (m_cache x)" "allocated (tables w) (m_inter_map x)"
      "m_cache x \<noteq> m_inter_map x"
      using owners_okD1 [OF assms(2) x True] by simp_all
    have w': "w' = w\<lparr>objs := (objs w)(this := None),
            tables := (tables w)[m_cache x := None, m_inter_map x := None]\<rparr>"
      using assms(1) Destroy dtor_owner_unfold [OF x True dx] by simp
    have objs': "objs w' z = (if z = this then None else objs w z)" for z
      unfolding w' by simp
    have a: "allocated (tables w') (m_cache fz) \<and> allocated (tables w') (m_inter_map fz) \<and>
        m_cache fz \<noteq> m_inter_map fz" if "objs w' z = Some fz" "m_owner fz" for z fz
    proof -
      have z: "z \<noteq> this" "objs w z = Some fz" using that(1) objs' by (auto split: if_splits)
      have ne: "m_cache fz \<noteq> m_cache x \<and> m_cache fz \<noteq> m_inter_map x \<and>
        m_inter_map fz \<noteq> m_cache x \<and> m_inter_map fz \<noteq> m_inter_map x"
        using owners_okD2 [OF assms(2) z(2) x that(2) True z(1)] .
      show ?thesis
        using owners_okD1 [OF assms(2) z(2) that(2)] ne unfolding w'
        by (simp add: allocated_update)
    qed
    have b: "m_cache fx \<noteq> m_cache fy \<and> m_cache fx \<noteq> m_inter_map fy \<and>
        m_inter_map fx \<noteq> m_cache fy \<and> m_inter_map fx \<noteq> m_inter_map fy"
      if "objs w' u = Some fx" "objs w' y = Some fy" "m_owner fx" "m_owner fy" "u \<noteq> y" for u y fx fy
    proof -
      have "objs w u = Some fx" "objs w y = Some fy"
        using that(1,2) objs' by (auto split: if_splits)
      then show ?thesis using owners_okD2 [OF assms(2) _ _ that(3,4,5)] by blast
    qed
    show ?thesis unfolding owners_ok_def using a b by blast
  qed
qed

lemma run_owners_ok:
  "run w acts = Inr w' \<Longrightarrow> owners_ok w \<Longrightarrow> owners_ok w'"
proof (induction acts arbitrary: w)
  case Nil
  then show ?case by simp
next
  case (Cons act acts)
  then obtain w1 where w1: "exec w act = Inr w1" "run w1 acts = Inr w'"
    by (auto split: sum.splits)
  show ?case using Cons.IH [OF w1(2)] exec_owners_ok [OF w1(1) Cons.prems(2)] .
qed

lemma owners_ok_init: "owners_ok init_world"
  by (simp add: owners_ok_def init_world_def)

lemma reachable_owners_ok: "run init_world acts = Inr w \<Longrightarrow> owners_ok w"
  using run_owners_ok owners_ok_init by blast

lemma run_append:
  "run w (as @ bs) = (case run w as of Inl e \<Rightarrow> Inl e | Inr w' \<Rightarrow> run w' bs)"
proof (induction as arbitrary: w)
  case Nil
  show ?case by simp
next
  case (Cons a as)
  show ?case by (cases "exec w a") (simp_all add: Cons.IH)
qed

lemma ex_world_reachable: "run init_world [Construct 0, Construct 1] = Inr ex_world"
  by (simp add: init_world_def default_ctor_def new_cell_def ex_world_def eval_nat_numeral)

lemma ex_world_objs:
  "objs ex_world 0 = Some \<lparr>m_cache = 0, m_inter_map = 1, m_owner = True\<rparr>"
  "objs ex_world 1 = Some \<lparr>m_cache = 2, m_inter_map = 3, m_owner = True\<rparr>"
  "objs ex_world 2 = None"
  by (simp_all add: ex_world_def)

lemma with_cache_live:
  "cache_at (tables w) p = Some c \<Longrightarrow>
     with_cache w p f = Inr (fst (f c), put_cache w p (snd (f c)))"
  by (simp add: with_cache_def split: prod.splits)

lemma ex_world_tables:
  "cache_at (tables ex_world) (m_cache ex_traits) = Some empty_cache"
  "imap_at (tables ex_world) (m_inter_map ex_traits) = Some []"
  by (simp_all add: cache_at_def imap_at_def ex_world_def ex_traits_def)

section \<open>The subdivision points and the parameters they denote\<close>

lemma ascending_interior_params:
  "ascending_interior vts \<Longrightarrow> sorted_wrt (<) (0 # vts @ [1])"
  by (auto simp: ascending_interior_def sorted_wrt_append)

lemma spec_tang_point_encloses:
  assumes "encloses c v" and "rational_collapsed c"
  shows "denotes (spec_tang_point B c) v"
proof (cases "point_type (fst c) = RATIONAL_PT")
  case True
  then have "t_min (fst c) = t_max (fst c)" using assms(2) by (simp add: rational_collapsed_def)
  then have "of_rat (t_min (fst c)) = v" using assms(1) unfolding encloses_def by simp
  then show ?thesis using True by (simp add: denotes_def spec_tang_point_def)
next
  case False
  then show ?thesis using assms(1) by (simp add: denotes_def spec_tang_point_def encloses_def)
qed

lemma spec_tang_point_eq_t_min:
  "spec_tang_point B c = spec_tang_point B d \<Longrightarrow> t_min (fst c) = t_min (fst d)"
  by (auto simp: spec_tang_point_def split: if_splits)

lemma selection_order_strict:
  assumes "candidates_isolate tb vts"
  shows "sorted_wrt (<) (map (\<lambda>c. t_min (fst c)) (selection_order tb))"
proof -
  have enc: "list_all2 encloses (selection_order tb) vts"
    using assms by (rule selection_order_encloses)
  have d: "distinct tb" using assms by (simp add: candidates_isolate_def disjoint_bounds_def)
  have dist: "distinct (selection_order tb)"
    using d mset_selection_order [of tb] by (metis mset_eq_imp_distinct_iff)
  have pair: "\<forall>c \<in> set (selection_order tb). \<forall>d \<in> set (selection_order tb). c \<noteq> d \<longrightarrow>
        t_max (fst c) < t_min (fst d) \<or> t_max (fst d) < t_min (fst c)"
    using assms unfolding candidates_isolate_def disjoint_bounds_def set_selection_order by blast
  have asc: "sorted_wrt (<) vts" using assms by (simp add: candidates_isolate_def)
  show ?thesis using asc enc dist pair by (rule enclosing_arrangement_sorted)
qed

lemma distinct_spec_tang_points:
  assumes "candidates_isolate tb vts"
  shows "distinct (map (spec_tang_point B) (selection_order tb))"
proof -
  have "distinct (map (\<lambda>c. t_min (fst c)) (selection_order tb))"
    using selection_order_strict [OF assms] by (simp add: strict_sorted_iff)
  then have d: "distinct (selection_order tb)"
    and inj: "inj_on (\<lambda>c. t_min (fst c)) (set (selection_order tb))"
    by (simp_all add: distinct_map)
  have "inj_on (spec_tang_point B) (set (selection_order tb))"
  proof (rule inj_onI)
    fix c d
    assume "c \<in> set (selection_order tb)" "d \<in> set (selection_order tb)"
      "spec_tang_point B c = spec_tang_point B d"
    then show "c = d" using inj spec_tang_point_eq_t_min [of B c d] by (auto dest: inj_onD)
  qed
  then show ?thesis using d by (simp add: distinct_map)
qed

lemma arcs_cover:
  fixes B :: Curve_2 and p0 p1 :: Point_2 and mid :: "Point_2 list"
  defines "arcs \<equiv> arcs_between B (p0 # mid @ [p1])"
  assumes den: "list_all2 denotes (p0 # mid @ [p1]) params"
    and dist: "distinct (p0 # mid @ [p1])"
  shows "\<forall>i < length arcs. supp_curve (arcs ! i) = B \<and>
           denotes (ps (arcs ! i)) (params ! i) \<and> denotes (pt (arcs ! i)) (params ! Suc i)"
    and "\<forall>i. Suc i < length arcs \<longrightarrow>
           pt (arcs ! i) = ps (arcs ! Suc i) \<and> ps (arcs ! i) \<noteq> ps (arcs ! Suc i) \<and>
           ps (arcs ! i) \<noteq> pt (arcs ! Suc i) \<and> pt (arcs ! i) \<noteq> pt (arcs ! Suc i)"
proof -
  define pts where "pts = p0 # mid @ [p1]"
  have lp: "length pts = Suc (Suc (length mid))" by (simp add: pts_def)
  have len: "length arcs = Suc (length mid)"
    unfolding arcs_def by (simp add: length_arcs_between)
  have nth: "arcs ! i = \<lparr>supp_curve = B, ps = pts ! i, pt = pts ! Suc i\<rparr>"
    if "i < Suc (length mid)" for i
    unfolding arcs_def pts_def using that by (intro nth_arcs_between) simp
  have dn: "denotes (pts ! i) (params ! i)" if "i < length pts" for i
    using den that unfolding pts_def [symmetric] by (rule list_all2_nthD)
  have ne: "pts ! i \<noteq> pts ! j" if "i < length pts" "j < length pts" "i \<noteq> j" for i j
    using dist that unfolding pts_def [symmetric] by (simp add: nth_eq_iff_index_eq)
  show "\<forall>i < length arcs. supp_curve (arcs ! i) = B \<and>
           denotes (ps (arcs ! i)) (params ! i) \<and> denotes (pt (arcs ! i)) (params ! Suc i)"
    using nth dn len lp by simp
  show "\<forall>i. Suc i < length arcs \<longrightarrow>
           pt (arcs ! i) = ps (arcs ! Suc i) \<and> ps (arcs ! i) \<noteq> ps (arcs ! Suc i) \<and>
           ps (arcs ! i) \<noteq> pt (arcs ! Suc i) \<and> pt (arcs ! i) \<noteq> pt (arcs ! Suc i)"
  proof (intro allI impI)
    fix i assume i: "Suc i < length arcs"
    have a: "arcs ! i = \<lparr>supp_curve = B, ps = pts ! i, pt = pts ! Suc i\<rparr>"
      and b: "arcs ! Suc i = \<lparr>supp_curve = B, ps = pts ! Suc i, pt = pts ! Suc (Suc i)\<rparr>"
      using nth [of i] nth [of "Suc i"] i len by simp_all
    have "pts ! i \<noteq> pts ! Suc i" "pts ! i \<noteq> pts ! Suc (Suc i)" "pts ! Suc i \<noteq> pts ! Suc (Suc i)"
      using ne [of i "Suc i"] ne [of i "Suc (Suc i)"] ne [of "Suc i" "Suc (Suc i)"] i len lp
      by simp_all
    then show "pt (arcs ! i) = ps (arcs ! Suc i) \<and> ps (arcs ! i) \<noteq> ps (arcs ! Suc i) \<and>
           ps (arcs ! i) \<noteq> pt (arcs ! Suc i) \<and> pt (arcs ! i) \<noteq> pt (arcs ! Suc i)"
      unfolding a b by simp
  qed
qed

lemma denotes_exact:
  "denotes (Point_2_rat B 0) 0" "denotes (Point_2_rat B 1) 1" "denotes (Point_2_alg B v) v"
  by (simp_all add: denotes_def Point_2_rat_def Point_2_alg_def)

lemma subdivision_fast:
  assumes inv: "list_all rational_collapsed tb"
    and iso: "candidates_isolate tb vts"
    and asc: "ascending_interior vts"
  shows "list_all2 denotes
           (Point_2_rat B 0 # map (spec_tang_point B) (selection_order tb) @ [Point_2_rat B 1])
           (0 # vts @ [1])"
    and "distinct
           (Point_2_rat B 0 # map (spec_tang_point B) (selection_order tb) @ [Point_2_rat B 1])"
    and "length tb = length vts"
proof -
  let ?sel = "selection_order tb"
  have enc: "list_all2 encloses ?sel vts" using iso by (rule selection_order_encloses)
  have col: "\<forall>c \<in> set ?sel. rational_collapsed c"
    using inv by (simp add: list_all_iff set_selection_order)
  have "list_all2 (\<lambda>c v. denotes (spec_tang_point B c) v) ?sel vts"
    using enc col by (auto intro: list_all2_mono spec_tang_point_encloses simp: list_all2_conv_all_nth)
  then have mid: "list_all2 denotes (map (spec_tang_point B) ?sel) vts"
    by (simp add: list_all2_map1)
  have "list_all2 denotes (map (spec_tang_point B) ?sel @ [Point_2_rat B 1]) (vts @ [1])"
    using mid by (intro list_all2_appendI) (simp_all add: denotes_exact)
  then show "list_all2 denotes
           (Point_2_rat B 0 # map (spec_tang_point B) ?sel @ [Point_2_rat B 1]) (0 # vts @ [1])"
    by (simp add: denotes_exact)
  have some: "bbox p \<noteq> None" if "p \<in> set (map (spec_tang_point B) ?sel)" for p
    using that by (auto simp: bbox_spec_tang_point)
  have none: "bbox (Point_2_rat B t) = None" for t by (simp add: Point_2_rat_def)
  have ends: "Point_2_rat B 0 \<noteq> Point_2_rat B 1" by (simp add: Point_2_rat_def)
  have "Point_2_rat B t \<notin> set (map (spec_tang_point B) ?sel)" for t
    using some none by blast
  then show "distinct
           (Point_2_rat B 0 # map (spec_tang_point B) ?sel @ [Point_2_rat B 1])"
    using distinct_spec_tang_points [OF iso, of B] ends by simp
  show "length tb = length vts"
    using list_all2_lengthD [OF enc] by (simp add: length_selection_order)
qed

lemma subdivision_exact:
  assumes asc: "ascending_interior vts"
  shows "list_all2 denotes
           (Point_2_rat B 0 # map (Point_2_alg B) vts @ [Point_2_rat B 1]) (0 # vts @ [1])"
    and "distinct (Point_2_rat B 0 # map (Point_2_alg B) vts @ [Point_2_rat B 1])"
proof -
  have "list_all2 (\<lambda>v w. denotes (Point_2_alg B v) w) vts vts"
    by (simp add: list_all2_same denotes_exact)
  then have mid: "list_all2 denotes (map (Point_2_alg B) vts) vts"
    by (simp add: list_all2_map1)
  have "list_all2 denotes (map (Point_2_alg B) vts @ [Point_2_rat B 1]) (vts @ [1])"
    using mid by (intro list_all2_appendI) (simp_all add: denotes_exact)
  then show "list_all2 denotes
           (Point_2_rat B 0 # map (Point_2_alg B) vts @ [Point_2_rat B 1]) (0 # vts @ [1])"
    by (simp add: denotes_exact)
  have d: "distinct vts" using asc by (simp add: ascending_interior_def strict_sorted_iff)
  have inj: "inj_on (Point_2_alg B) (set vts)"
    by (rule inj_onI) (simp add: Point_2_alg_def)
  have out: "Point_2_rat B t \<notin> set (map (Point_2_alg B) vts)" for t
    by (auto simp: Point_2_rat_def Point_2_alg_def)
  have ends: "Point_2_rat B 0 \<noteq> Point_2_rat B 1" by (simp add: Point_2_rat_def)
  show "distinct (Point_2_rat B 0 # map (Point_2_alg B) vts @ [Point_2_rat B 1])"
    using d inj out ends by (simp add: distinct_map)
qed

section \<open>The claims\<close>

text \<open>
  C1. Let the interior vertical-tangency parameters of the curve be the ascending list
  \<open>v\<^sub>1 < ... < v\<^sub>n\<close> inside (0,1) that the cache returns, every candidate of type
  \<open>RATIONAL_PT\<close> have \<open>t_min = t_max\<close>, and, when every candidate is refinable, the
  candidates isolate these parameters. Then the call returns, and the arcs it emits
  are \<open>n + 1\<close> arcs of the curve such that, with \<open>v\<^sub>0 = 0\<close> and \<open>v\<^sub>n\<^sub>+\<^sub>1 = 1\<close>, the arc of index
  \<open>i\<close> runs from a point that denotes \<open>v\<^sub>i\<close> to a point that denotes \<open>v\<^sub>i\<^sub>+\<^sub>1\<close>, these
  parameters being strictly ascending: the arcs cover \<open>[0,1]\<close> without gap or overlap. The
  first arc starts at the exact point of parameter 0 and the last ends at the exact point
  of parameter 1; the right construction point of an arc is the left construction point
  of the next, and no other construction point of two consecutive arcs coincides.
\<close>

theorem decomposition_covers:
  assumes "list_all rational_collapsed (vtp (control_points B) 0 1)"
    and "ascending_interior (interior_tangencies isolate cache B)"
    and "list_all (\<lambda>c. can_refine (fst c)) (vtp (control_points B) 0 1) \<longrightarrow>
           candidates_isolate (vtp (control_points B) 0 1) (interior_tangencies isolate cache B)"
  shows "\<exists>oi' cache' arcs params.
      Make_x_monotone_2 vtp isolate cache B oi = Inr (oi', cache') \<and>
      emitted oi' = emitted oi @ map make_object arcs \<and>
      length arcs = Suc (length (interior_tangencies isolate cache B)) \<and>
      params = 0 # interior_tangencies isolate cache B @ [1] \<and>
      sorted_wrt (<) params \<and>
      (\<forall>i < length arcs. supp_curve (arcs ! i) = B \<and>
         denotes (ps (arcs ! i)) (params ! i) \<and> denotes (pt (arcs ! i)) (params ! Suc i)) \<and>
      ps (hd arcs) = Point_2_rat B 0 \<and>
      pt (last arcs) = Point_2_rat B 1 \<and>
      (\<forall>i. Suc i < length arcs \<longrightarrow>
         pt (arcs ! i) = ps (arcs ! Suc i) \<and> ps (arcs ! i) \<noteq> ps (arcs ! Suc i) \<and>
         ps (arcs ! i) \<noteq> pt (arcs ! Suc i) \<and> pt (arcs ! i) \<noteq> pt (arcs ! Suc i))"
proof -
  define tb where "tb = vtp (control_points B) 0 1"
  define vts where "vts = interior_tangencies isolate cache B"
  define params where "params = 0 # vts @ [1]"
  obtain cache1 where g:
    "get_vertical_tangencies isolate cache (curve_id B) (x_polynomial B) (x_norm B) =
       (vts, cache1)"
    unfolding vts_def interior_tangencies_def by (metis prod.collapse)
  have inv: "list_all rational_collapsed tb" using assms(1) by (simp add: tb_def)
  have asc: "ascending_interior vts" using assms(2) by (simp add: vts_def)
  have ord: "sorted_wrt (<) params"
    unfolding params_def using asc by (rule ascending_interior_params)
  have "\<exists>oi' cache' mid.
      Make_x_monotone_2 vtp isolate cache B oi = Inr (oi', cache') \<and>
      emitted oi' = emitted oi @
        map make_object (arcs_between B (Point_2_rat B 0 # mid @ [Point_2_rat B 1])) \<and>
      length mid = length vts \<and>
      list_all2 denotes (Point_2_rat B 0 # mid @ [Point_2_rat B 1]) params \<and>
      distinct (Point_2_rat B 0 # mid @ [Point_2_rat B 1])"
  proof (cases "list_all (\<lambda>c. can_refine (fst c)) tb")
    case True
    then have iso: "candidates_isolate tb vts" using assms(3) by (simp add: tb_def vts_def)
    let ?mid = "map (spec_tang_point B) (selection_order tb)"
    have make: "Make_x_monotone_2 vtp isolate cache B oi =
       Inr (\<lparr>emitted = emitted oi @ map make_object
               (arcs_between B (Point_2_rat B 0 # ?mid @ [Point_2_rat B 1])),
             increments = increments oi + length tb\<rparr>, cache)"
      using True inv unfolding tb_def by (rule Make_x_monotone_2_fast)
    have len: "length ?mid = length vts"
      using subdivision_fast(3) [OF inv iso asc] by (simp add: length_selection_order)
    show ?thesis
      using make len subdivision_fast(1,2) [OF inv iso asc, of B] unfolding params_def
      by (intro exI [of _ "\<lparr>emitted = emitted oi @ map make_object
               (arcs_between B (Point_2_rat B 0 # ?mid @ [Point_2_rat B 1])),
             increments = increments oi + length tb\<rparr>"] exI [of _ cache] exI [of _ ?mid]) simp
  next
    case False
    let ?mid = "map (Point_2_alg B) vts"
    have pre: "list_all rational_collapsed
           (takeWhile (\<lambda>c. can_refine (fst c)) (selection_order tb))"
      using collapsed_selected_before_break [OF inv] by (simp add: selected_before_break_def)
    have make: "Make_x_monotone_2 vtp isolate cache B oi =
       Inr (\<lparr>emitted = emitted oi @ map make_object
               (arcs_between B (Point_2_rat B 0 # ?mid @ [Point_2_rat B 1])),
             increments = increments oi + length vts\<rparr>, cache1)"
      using False pre g unfolding tb_def by (intro Make_x_monotone_2_exact)
    show ?thesis
      using make subdivision_exact [OF asc, of B] unfolding params_def
      by (intro exI [of _ "\<lparr>emitted = emitted oi @ map make_object
               (arcs_between B (Point_2_rat B 0 # ?mid @ [Point_2_rat B 1])),
             increments = increments oi + length vts\<rparr>"] exI [of _ cache1] exI [of _ ?mid]) simp
  qed
  then obtain oi' cache' mid where r:
      "Make_x_monotone_2 vtp isolate cache B oi = Inr (oi', cache')"
      "emitted oi' = emitted oi @
        map make_object (arcs_between B (Point_2_rat B 0 # mid @ [Point_2_rat B 1]))"
      "length mid = length vts"
      and den: "list_all2 denotes (Point_2_rat B 0 # mid @ [Point_2_rat B 1]) params"
      and dist: "distinct (Point_2_rat B 0 # mid @ [Point_2_rat B 1])"
    by blast
  define arcs where "arcs = arcs_between B (Point_2_rat B 0 # mid @ [Point_2_rat B 1])"
  have len: "length arcs = Suc (length vts)"
    unfolding arcs_def using r(3) arcs_chain(1) [of B "Point_2_rat B 0" mid "Point_2_rat B 1"]
    by simp
  have first: "ps (hd arcs) = Point_2_rat B 0" and final: "pt (last arcs) = Point_2_rat B 1"
    unfolding arcs_def using arcs_chain(2,3) [of B "Point_2_rat B 0" mid "Point_2_rat B 1"]
    by simp_all
  have cover: "\<forall>i < length arcs. supp_curve (arcs ! i) = B \<and>
         denotes (ps (arcs ! i)) (params ! i) \<and> denotes (pt (arcs ! i)) (params ! Suc i)"
    unfolding arcs_def using den dist by (rule arcs_cover(1))
  have share: "\<forall>i. Suc i < length arcs \<longrightarrow>
         pt (arcs ! i) = ps (arcs ! Suc i) \<and> ps (arcs ! i) \<noteq> ps (arcs ! Suc i) \<and>
         ps (arcs ! i) \<noteq> pt (arcs ! Suc i) \<and> pt (arcs ! i) \<noteq> pt (arcs ! Suc i)"
    unfolding arcs_def using den dist by (rule arcs_cover(2))
  have "Make_x_monotone_2 vtp isolate cache B oi = Inr (oi', cache') \<and>
      emitted oi' = emitted oi @ map make_object arcs \<and>
      length arcs = Suc (length vts) \<and>
      params = 0 # vts @ [1] \<and>
      sorted_wrt (<) params \<and>
      (\<forall>i < length arcs. supp_curve (arcs ! i) = B \<and>
         denotes (ps (arcs ! i)) (params ! i) \<and> denotes (pt (arcs ! i)) (params ! Suc i)) \<and>
      ps (hd arcs) = Point_2_rat B 0 \<and>
      pt (last arcs) = Point_2_rat B 1 \<and>
      (\<forall>i. Suc i < length arcs \<longrightarrow>
         pt (arcs ! i) = ps (arcs ! Suc i) \<and> ps (arcs ! i) \<noteq> ps (arcs ! Suc i) \<and>
         ps (arcs ! i) \<noteq> pt (arcs ! Suc i) \<and> pt (arcs ! i) \<noteq> pt (arcs ! Suc i))"
    using r(1) r(2) [folded arcs_def] len params_def ord cover first final share
    by (intro conjI)
  then show ?thesis
    unfolding vts_def by (intro exI [of _ oi'] exI [of _ cache'] exI [of _ arcs] exI [of _ params])
qed

theorem decomposition_covers_witness:
  "(\<exists>oi' cache' arcs.
      Make_x_monotone_2 ex_fast_traits ex_isolate_two empty_cache ex_curve ex_oi = Inr (oi', cache') \<and>
      emitted oi' = map make_object arcs \<and> length arcs = 3 \<and>
      denotes (ps (arcs ! 0)) 0 \<and> denotes (pt (arcs ! 0)) (1/4) \<and>
      denotes (ps (arcs ! 1)) (1/4) \<and> denotes (pt (arcs ! 1)) (2/3) \<and>
      denotes (ps (arcs ! 2)) (2/3) \<and> denotes (pt (arcs ! 2)) 1 \<and>
      pt (arcs ! 0) = ps (arcs ! 1) \<and> pt (arcs ! 1) = ps (arcs ! 2) \<and>
      ps (arcs ! 0) \<noteq> ps (arcs ! 1) \<and> pt (arcs ! 0) \<noteq> pt (arcs ! 1)) \<and>
   (\<exists>oi' cache' arcs.
      Make_x_monotone_2 ex_unref_traits ex_isolate empty_cache ex_curve ex_oi = Inr (oi', cache') \<and>
      emitted oi' = map make_object arcs \<and> length arcs = 2 \<and>
      denotes (ps (arcs ! 0)) 0 \<and> denotes (pt (arcs ! 0)) (1/2) \<and>
      denotes (ps (arcs ! 1)) (1/2) \<and> denotes (pt (arcs ! 1)) 1 \<and>
      pt (arcs ! 0) = ps (arcs ! 1) \<and> ps (arcs ! 0) \<noteq> pt (arcs ! 1))"
proof (intro conjI)
  have tb: "ex_fast_traits (control_points ex_curve) 0 1 = [ex_hi, ex_lo]"
    by (simp add: ex_fast_traits_def)
  have g: "interior_tangencies ex_isolate_two empty_cache ex_curve = [1/4, 2/3]"
    by (simp add: interior_tangencies_def get_vertical_tangencies_def empty_cache_def
        ex_isolate_two_def Let_def)
  have h1: "list_all rational_collapsed (ex_fast_traits (control_points ex_curve) 0 1)"
    unfolding tb by (simp add: ex_flags)
  have h2: "ascending_interior (interior_tangencies ex_isolate_two empty_cache ex_curve)"
    unfolding g by (simp add: ascending_interior_def)
  have enc: "list_all2 encloses [ex_lo, ex_hi] [1/4, 2/3]"
    by (simp add: encloses_def ex_lo_def ex_hi_def of_rat_divide)
  have "mset [ex_lo, ex_hi] = mset [ex_hi, ex_lo]" by simp
  then have ex: "\<exists>cs. mset cs = mset [ex_hi, ex_lo] \<and> list_all2 encloses cs [1/4, 2/3]"
    using enc by blast
  have dis: "disjoint_bounds [ex_hi, ex_lo]"
    by (simp add: disjoint_bounds_def ex_lo_def ex_hi_def)
  have asc: "sorted_wrt (<) [1/4, 2/3 :: real]" by simp
  have ci: "candidates_isolate [ex_hi, ex_lo] [1/4, 2/3]"
    unfolding candidates_isolate_def using asc dis ex by (intro conjI)
  have h3: "list_all (\<lambda>c. can_refine (fst c)) (ex_fast_traits (control_points ex_curve) 0 1) \<longrightarrow>
      candidates_isolate (ex_fast_traits (control_points ex_curve) 0 1)
        (interior_tangencies ex_isolate_two empty_cache ex_curve)"
    unfolding tb g using ci by (rule impI)
  obtain oi' cache' arcs params where w:
      "Make_x_monotone_2 ex_fast_traits ex_isolate_two empty_cache ex_curve ex_oi = Inr (oi', cache')"
      "emitted oi' = emitted ex_oi @ map make_object arcs"
      "length arcs = Suc (length (interior_tangencies ex_isolate_two empty_cache ex_curve))"
      "params = 0 # interior_tangencies ex_isolate_two empty_cache ex_curve @ [1]"
    and cover: "\<forall>i < length arcs. supp_curve (arcs ! i) = ex_curve \<and>
         denotes (ps (arcs ! i)) (params ! i) \<and> denotes (pt (arcs ! i)) (params ! Suc i)"
    and share: "\<forall>i. Suc i < length arcs \<longrightarrow>
         pt (arcs ! i) = ps (arcs ! Suc i) \<and> ps (arcs ! i) \<noteq> ps (arcs ! Suc i) \<and>
         ps (arcs ! i) \<noteq> pt (arcs ! Suc i) \<and> pt (arcs ! i) \<noteq> pt (arcs ! Suc i)"
    using decomposition_covers [of ex_fast_traits ex_curve ex_isolate_two empty_cache ex_oi,
        OF h1 h2 h3] by blast
  have len: "length arcs = Suc (Suc (Suc 0))" using w(3) unfolding g by simp
  have par: "params = [0, 1/4, 2/3, 1]" using w(4) unfolding g by simp
  have c0: "denotes (ps (arcs ! 0)) 0 \<and> denotes (pt (arcs ! 0)) (1/4)"
    using spec [OF cover, of 0] len unfolding par by simp
  have c1: "denotes (ps (arcs ! Suc 0)) (1/4) \<and> denotes (pt (arcs ! Suc 0)) (2/3)"
    using spec [OF cover, of "Suc 0"] len unfolding par by simp
  have c2: "denotes (ps (arcs ! Suc (Suc 0))) (2/3) \<and> denotes (pt (arcs ! Suc (Suc 0))) 1"
    using spec [OF cover, of "Suc (Suc 0)"] len unfolding par by simp
  have s0: "pt (arcs ! 0) = ps (arcs ! Suc 0) \<and> ps (arcs ! 0) \<noteq> ps (arcs ! Suc 0) \<and>
      pt (arcs ! 0) \<noteq> pt (arcs ! Suc 0)"
  proof -
    have "Suc 0 < length arcs" using len by simp
    then show ?thesis using mp [OF spec [OF share, of 0]] by blast
  qed
  have s1: "pt (arcs ! Suc 0) = ps (arcs ! Suc (Suc 0))"
    using spec [OF share, of "Suc 0"] len by simp
  have e: "emitted oi' = map make_object arcs" using w(2) by (simp add: ex_oi_def)
  have "Make_x_monotone_2 ex_fast_traits ex_isolate_two empty_cache ex_curve ex_oi = Inr (oi', cache') \<and>
      emitted oi' = map make_object arcs \<and> length arcs = 3 \<and>
      denotes (ps (arcs ! 0)) 0 \<and> denotes (pt (arcs ! 0)) (1/4) \<and>
      denotes (ps (arcs ! 1)) (1/4) \<and> denotes (pt (arcs ! 1)) (2/3) \<and>
      denotes (ps (arcs ! 2)) (2/3) \<and> denotes (pt (arcs ! 2)) 1 \<and>
      pt (arcs ! 0) = ps (arcs ! 1) \<and> pt (arcs ! 1) = ps (arcs ! 2) \<and>
      ps (arcs ! 0) \<noteq> ps (arcs ! 1) \<and> pt (arcs ! 0) \<noteq> pt (arcs ! 1)"
    unfolding One_nat_def numeral_2_eq_2 numeral_3_eq_3
    using w(1) e len c0 c1 c2 s0 s1 by blast
  then show "\<exists>oi' cache' arcs.
      Make_x_monotone_2 ex_fast_traits ex_isolate_two empty_cache ex_curve ex_oi = Inr (oi', cache') \<and>
      emitted oi' = map make_object arcs \<and> length arcs = 3 \<and>
      denotes (ps (arcs ! 0)) 0 \<and> denotes (pt (arcs ! 0)) (1/4) \<and>
      denotes (ps (arcs ! 1)) (1/4) \<and> denotes (pt (arcs ! 1)) (2/3) \<and>
      denotes (ps (arcs ! 2)) (2/3) \<and> denotes (pt (arcs ! 2)) 1 \<and>
      pt (arcs ! 0) = ps (arcs ! 1) \<and> pt (arcs ! 1) = ps (arcs ! 2) \<and>
      ps (arcs ! 0) \<noteq> ps (arcs ! 1) \<and> pt (arcs ! 0) \<noteq> pt (arcs ! 1)"
    by (intro exI [of _ oi'] exI [of _ cache'] exI [of _ arcs])
next
  have tb: "ex_unref_traits (control_points ex_curve) 0 1 = [ex_hi, ex_unref, ex_lo]"
    by (simp add: ex_unref_traits_def)
  have g: "interior_tangencies ex_isolate empty_cache ex_curve = [1/2]"
    by (simp add: interior_tangencies_def get_vertical_tangencies_def empty_cache_def
        ex_isolate_def Let_def)
  have h1: "list_all rational_collapsed (ex_unref_traits (control_points ex_curve) 0 1)"
    unfolding tb by (simp add: ex_flags)
  have h2: "ascending_interior (interior_tangencies ex_isolate empty_cache ex_curve)"
    unfolding g by (simp add: ascending_interior_def)
  have h3: "list_all (\<lambda>c. can_refine (fst c)) (ex_unref_traits (control_points ex_curve) 0 1) \<longrightarrow>
      candidates_isolate (ex_unref_traits (control_points ex_curve) 0 1)
        (interior_tangencies ex_isolate empty_cache ex_curve)"
    unfolding tb using ex_flags(4) by simp
  obtain oi' cache' arcs params where w:
      "Make_x_monotone_2 ex_unref_traits ex_isolate empty_cache ex_curve ex_oi = Inr (oi', cache')"
      "emitted oi' = emitted ex_oi @ map make_object arcs"
      "length arcs = Suc (length (interior_tangencies ex_isolate empty_cache ex_curve))"
      "params = 0 # interior_tangencies ex_isolate empty_cache ex_curve @ [1]"
    and cover: "\<forall>i < length arcs. supp_curve (arcs ! i) = ex_curve \<and>
         denotes (ps (arcs ! i)) (params ! i) \<and> denotes (pt (arcs ! i)) (params ! Suc i)"
    and share: "\<forall>i. Suc i < length arcs \<longrightarrow>
         pt (arcs ! i) = ps (arcs ! Suc i) \<and> ps (arcs ! i) \<noteq> ps (arcs ! Suc i) \<and>
         ps (arcs ! i) \<noteq> pt (arcs ! Suc i) \<and> pt (arcs ! i) \<noteq> pt (arcs ! Suc i)"
    using decomposition_covers [of ex_unref_traits ex_curve ex_isolate empty_cache ex_oi,
        OF h1 h2 h3] by blast
  have len: "length arcs = Suc (Suc 0)" using w(3) unfolding g by simp
  have par: "params = [0, 1/2, 1]" using w(4) unfolding g by simp
  have c0: "denotes (ps (arcs ! 0)) 0 \<and> denotes (pt (arcs ! 0)) (1/2)"
    using spec [OF cover, of 0] len unfolding par by simp
  have c1: "denotes (ps (arcs ! Suc 0)) (1/2) \<and> denotes (pt (arcs ! Suc 0)) 1"
    using spec [OF cover, of "Suc 0"] len unfolding par by simp
  have s0: "pt (arcs ! 0) = ps (arcs ! Suc 0) \<and> ps (arcs ! 0) \<noteq> pt (arcs ! Suc 0)"
  proof -
    have "Suc 0 < length arcs" using len by simp
    then show ?thesis using mp [OF spec [OF share, of 0]] by blast
  qed
  have e: "emitted oi' = map make_object arcs" using w(2) by (simp add: ex_oi_def)
  have "Make_x_monotone_2 ex_unref_traits ex_isolate empty_cache ex_curve ex_oi = Inr (oi', cache') \<and>
      emitted oi' = map make_object arcs \<and> length arcs = 2 \<and>
      denotes (ps (arcs ! 0)) 0 \<and> denotes (pt (arcs ! 0)) (1/2) \<and>
      denotes (ps (arcs ! 1)) (1/2) \<and> denotes (pt (arcs ! 1)) 1 \<and>
      pt (arcs ! 0) = ps (arcs ! 1) \<and> ps (arcs ! 0) \<noteq> pt (arcs ! 1)"
    unfolding One_nat_def numeral_2_eq_2
    using w(1) e len c0 c1 s0 by blast
  then show "\<exists>oi' cache' arcs.
      Make_x_monotone_2 ex_unref_traits ex_isolate empty_cache ex_curve ex_oi = Inr (oi', cache') \<and>
      emitted oi' = map make_object arcs \<and> length arcs = 2 \<and>
      denotes (ps (arcs ! 0)) 0 \<and> denotes (pt (arcs ! 0)) (1/2) \<and>
      denotes (ps (arcs ! 1)) (1/2) \<and> denotes (pt (arcs ! 1)) 1 \<and>
      pt (arcs ! 0) = ps (arcs ! 1) \<and> ps (arcs ! 0) \<noteq> pt (arcs ! 1)"
    by (intro exI [of _ oi'] exI [of _ cache'] exI [of _ arcs])
qed

text \<open>
  C2. If some candidate cannot be refined, the call returns normally (every candidate of
  type \<open>RATIONAL_PT\<close> having \<open>t_min = t_max\<close>, as the collaborator guarantees and the code
  asserts); the consumption loop ends with \<open>app_ok = false\<close>; the tangency parameters are
  fetched from the cache; the arcs emitted are those between the exact points of
  parameter 0, of these parameters in the order of the list, and of parameter 1; and no
  point that the consumption loop had materialised is a construction point of an arc.
\<close>

theorem unrefinable_candidate_falls_back:
  assumes "\<exists>c \<in> set (vtp (control_points B) 0 1). \<not> can_refine (fst c)"
    and "list_all rational_collapsed (vtp (control_points B) 0 1)"
  shows "\<exists>tang_points vt_list cache1.
      approx_loop B (vtp (control_points B) 0 1) [] = Inr (False, tang_points) \<and>
      get_vertical_tangencies isolate cache (curve_id B) (x_polynomial B) (x_norm B)
        = (vt_list, cache1) \<and>
      Make_x_monotone_2 vtp isolate cache B oi =
        Inr (\<lparr>emitted = emitted oi @ map make_object
                (arcs_between B
                   (Point_2_rat B 0 # map (Point_2_alg B) vt_list @ [Point_2_rat B 1])),
              increments = increments oi + length vt_list\<rparr>, cache1) \<and>
      (\<forall>a \<in> set (arcs_between B
                    (Point_2_rat B 0 # map (Point_2_alg B) vt_list @ [Point_2_rat B 1])).
         ps a \<notin> set tang_points \<and> pt a \<notin> set tang_points)"
proof -
  define tb where "tb = vtp (control_points B) 0 1"
  define tps where "tps = map (spec_tang_point B) (selected_before_break tb)"
  obtain vt_list cache1 where g:
    "get_vertical_tangencies isolate cache (curve_id B) (x_polynomial B) (x_norm B) =
       (vt_list, cache1)"
    by fastforce
  let ?pts = "Point_2_rat B 0 # map (Point_2_alg B) vt_list @ [Point_2_rat B 1]"
  have unref: "\<not> list_all (\<lambda>c. can_refine (fst c)) tb"
    using assms(1) unfolding tb_def list_all_iff by blast
  have pre: "list_all rational_collapsed (selected_before_break tb)"
    using assms(2) unfolding tb_def by (rule collapsed_selected_before_break)
  have loop: "approx_loop B tb [] = Inr (False, tps)"
    using pre unref unfolding tps_def by (simp add: approx_loop_result)
  have make: "Make_x_monotone_2 vtp isolate cache B oi =
        Inr (\<lparr>emitted = emitted oi @ map make_object (arcs_between B ?pts),
              increments = increments oi + length vt_list\<rparr>, cache1)"
    using unref pre g unfolding tb_def selected_before_break_def
    by (intro Make_x_monotone_2_exact)
  have none: "bbox p = None" if "p \<in> set ?pts" for p
    using that by (auto simp: Point_2_rat_def Point_2_alg_def)
  have some: "bbox p \<noteq> None" if "p \<in> set tps" for p
    using that unfolding tps_def by (auto simp: bbox_spec_tang_point)
  have apart: "ps a \<notin> set tps \<and> pt a \<notin> set tps" if "a \<in> set (arcs_between B ?pts)" for a
    using arcs_between_endpoints [OF that] none some by blast
  show ?thesis
    using loop g make apart unfolding tb_def
    by (intro exI [of _ tps] exI [of _ vt_list] exI [of _ cache1]) blast
qed

theorem unrefinable_candidate_falls_back_witness:
  "Make_x_monotone_2 ex_unref_traits ex_isolate empty_cache ex_curve ex_oi =
     Inr (\<lparr>emitted = map make_object
             [\<lparr>supp_curve = ex_curve, ps = Point_2_rat ex_curve 0, pt = Point_2_alg ex_curve (1/2)\<rparr>,
              \<lparr>supp_curve = ex_curve, ps = Point_2_alg ex_curve (1/2), pt = Point_2_rat ex_curve 1\<rparr>],
           increments = 1\<rparr>,
          \<lparr>vert_tang_map = [(7, [1/2])], intersect_map = []\<rparr>) \<and>
   approx_loop ex_curve (ex_unref_traits (control_points ex_curve) 0 1) [] =
     Inr (False, [spec_tang_point ex_curve ex_lo])"
proof -
  have tb: "ex_unref_traits (control_points ex_curve) 0 1 = [ex_hi, ex_unref, ex_lo]"
    by (simp add: ex_unref_traits_def)
  have h1: "\<exists>c \<in> set (ex_unref_traits (control_points ex_curve) 0 1). \<not> can_refine (fst c)"
    unfolding tb using ex_flags(4) by simp
  have sb: "selected_before_break [ex_hi, ex_unref, ex_lo] = [ex_lo]"
    by (simp add: selected_before_break_def ex_selection_unref ex_flags)
  have h2: "list_all rational_collapsed (ex_unref_traits (control_points ex_curve) 0 1)"
    unfolding tb by (simp add: ex_flags)
  have g: "get_vertical_tangencies ex_isolate empty_cache
        (curve_id ex_curve) (x_polynomial ex_curve) (x_norm ex_curve) =
      ([1/2], \<lparr>vert_tang_map = [(7, [1/2])], intersect_map = []\<rparr>)"
    by (simp add: get_vertical_tangencies_def empty_cache_def ex_isolate_def ex_curve_def Let_def)
  obtain tang_points vt_list cache1 where w:
    "approx_loop ex_curve (ex_unref_traits (control_points ex_curve) 0 1) [] =
       Inr (False, tang_points)"
    "get_vertical_tangencies ex_isolate empty_cache
        (curve_id ex_curve) (x_polynomial ex_curve) (x_norm ex_curve) = (vt_list, cache1)"
    "Make_x_monotone_2 ex_unref_traits ex_isolate empty_cache ex_curve ex_oi =
        Inr (\<lparr>emitted = emitted ex_oi @ map make_object
                (arcs_between ex_curve
                   (Point_2_rat ex_curve 0 # map (Point_2_alg ex_curve) vt_list @
                    [Point_2_rat ex_curve 1])),
              increments = increments ex_oi + length vt_list\<rparr>, cache1)"
    using unrefinable_candidate_falls_back [of ex_unref_traits ex_curve ex_isolate empty_cache ex_oi, OF h1 h2] by blast
  have vt: "vt_list = [1/2]" "cache1 = \<lparr>vert_tang_map = [(7, [1/2])], intersect_map = []\<rparr>"
    using w(2) unfolding g by auto
  have tp: "tang_points = [spec_tang_point ex_curve ex_lo]"
    using approx_loop_Inr(1) [OF w(1)] unfolding tb sb by simp
  show ?thesis
    using w(1,3) unfolding vt tp by (simp add: ex_oi_def)
qed

text \<open>
  C3. Take a curve on which every candidate of the bounding traits is refinable (and
  every candidate of type \<open>RATIONAL_PT\<close> has \<open>t_min = t_max\<close>), the candidates and the exact
  tangency list of the cache being related as the specification says. Then the call
  returns through the fast path, and a call on the same curve and cache that is forced
  to the exact fallback (by bounding traits that report an unrefinable candidate) emits
  as many arcs, each agreeing with the arc of the fast path at the same position: same
  curve, and construction points that denote the same parameters.
\<close>

theorem fast_path_agrees_with_exact_path:
  assumes "list_all (\<lambda>c. can_refine (fst c)) (vtp (control_points B) 0 1)"
    and "list_all rational_collapsed (vtp (control_points B) 0 1)"
    and "candidates_isolate (vtp (control_points B) 0 1)
           (fst (get_vertical_tangencies isolate cache (curve_id B) (x_polynomial B) (x_norm B)))"
    and "\<exists>c \<in> set (vtp' (control_points B) 0 1). \<not> can_refine (fst c)"
    and "list_all rational_collapsed (vtp' (control_points B) 0 1)"
  shows "\<exists>oi_f cache_f oi_e cache_e arcs_f arcs_e.
      Make_x_monotone_2 vtp isolate cache B oi = Inr (oi_f, cache_f) \<and>
      Make_x_monotone_2 vtp' isolate cache B oi = Inr (oi_e, cache_e) \<and>
      emitted oi_f = emitted oi @ map make_object arcs_f \<and>
      emitted oi_e = emitted oi @ map make_object arcs_e \<and>
      length arcs_f = length arcs_e \<and>
      list_all2 arcs_agree arcs_f arcs_e"
proof -
  define tb where "tb = vtp (control_points B) 0 1"
  obtain vts cache1 where g:
    "get_vertical_tangencies isolate cache (curve_id B) (x_polynomial B) (x_norm B) =
       (vts, cache1)"
    by fastforce
  let ?p0 = "Point_2_rat B 0" and ?p1 = "Point_2_rat B 1"
  let ?mid_f = "map (spec_tang_point B) (selection_order tb)"
  let ?mid_e = "map (Point_2_alg B) vts"
  let ?arcs_f = "arcs_between B (?p0 # ?mid_f @ [?p1])"
  let ?arcs_e = "arcs_between B (?p0 # ?mid_e @ [?p1])"
  have fast: "Make_x_monotone_2 vtp isolate cache B oi =
       Inr (\<lparr>emitted = emitted oi @ map make_object ?arcs_f,
             increments = increments oi + length tb\<rparr>, cache)"
    using assms(1,2) unfolding tb_def by (intro Make_x_monotone_2_fast)
  have unref: "\<not> list_all (\<lambda>c. can_refine (fst c)) (vtp' (control_points B) 0 1)"
    using assms(4) unfolding list_all_iff by blast
  have pre: "list_all rational_collapsed
           (takeWhile (\<lambda>c. can_refine (fst c)) (selection_order (vtp' (control_points B) 0 1)))"
    using collapsed_selected_before_break [OF assms(5)] unfolding selected_before_break_def .
  have exact: "Make_x_monotone_2 vtp' isolate cache B oi =
       Inr (\<lparr>emitted = emitted oi @ map make_object ?arcs_e,
             increments = increments oi + length vts\<rparr>, cache1)"
    using unref pre g by (intro Make_x_monotone_2_exact)
  have enc: "list_all2 encloses (selection_order tb) vts"
    using assms(3) unfolding tb_def [symmetric] g by (simp add: selection_order_encloses)
  have coll: "\<forall>c \<in> set (selection_order tb). rational_collapsed c"
    using assms(2) unfolding tb_def [symmetric] by (simp add: set_selection_order list_all_iff)
  have mids: "list_all2 same_parameter ?mid_f ?mid_e"
    unfolding list_all2_map1 list_all2_map2
    using enc coll
    by (auto intro!: list_all2_mono [OF enc] spec_tang_point_denotes dest: list_all2_lengthD
        simp: list_all2_conv_all_nth)
  have pts: "list_all2 same_parameter (?p0 # ?mid_f @ [?p1]) (?p0 # ?mid_e @ [?p1])"
    using mids by (simp add: same_parameter_rat list_all2_appendI)
  have agree: "list_all2 arcs_agree ?arcs_f ?arcs_e"
    using pts by (rule arcs_between_agree)
  have len: "length ?arcs_f = length ?arcs_e"
    using agree by (rule list_all2_lengthD)
  show ?thesis
    using fast exact agree len
    by (intro exI [of _ "\<lparr>emitted = emitted oi @ map make_object ?arcs_f,
             increments = increments oi + length tb\<rparr>"] exI [of _ cache]
          exI [of _ "\<lparr>emitted = emitted oi @ map make_object ?arcs_e,
             increments = increments oi + length vts\<rparr>"] exI [of _ cache1]
          exI [of _ ?arcs_f] exI [of _ ?arcs_e]) simp
qed

theorem fast_path_agrees_with_exact_path_witness:
  "candidates_isolate [ex_hi, ex_lo] [1/4, 2/3] \<and>
   (\<exists>oi_f cache_f oi_e cache_e arcs_f arcs_e.
      Make_x_monotone_2 ex_fast_traits ex_isolate_two empty_cache ex_curve ex_oi = Inr (oi_f, cache_f) \<and>
      Make_x_monotone_2 ex_unref_traits ex_isolate_two empty_cache ex_curve ex_oi = Inr (oi_e, cache_e) \<and>
      emitted oi_f = map make_object arcs_f \<and>
      emitted oi_e = map make_object arcs_e \<and>
      length arcs_f = length arcs_e \<and>
      list_all2 arcs_agree arcs_f arcs_e)"
proof -
  have tb: "ex_fast_traits (control_points ex_curve) 0 1 = [ex_hi, ex_lo]"
    by (simp add: ex_fast_traits_def)
  have tb': "ex_unref_traits (control_points ex_curve) 0 1 = [ex_hi, ex_unref, ex_lo]"
    by (simp add: ex_unref_traits_def)
  have g: "fst (get_vertical_tangencies ex_isolate_two empty_cache
        (curve_id ex_curve) (x_polynomial ex_curve) (x_norm ex_curve)) = [1/4, 2/3]"
    by (simp add: get_vertical_tangencies_def empty_cache_def ex_isolate_two_def Let_def)
  have h1: "list_all (\<lambda>c. can_refine (fst c)) (ex_fast_traits (control_points ex_curve) 0 1)"
    and h2: "list_all rational_collapsed (ex_fast_traits (control_points ex_curve) 0 1)"
    unfolding tb by (simp_all add: ex_flags)
  have enc: "list_all2 encloses [ex_lo, ex_hi] [1/4, 2/3]"
    by (simp add: encloses_def ex_lo_def ex_hi_def of_rat_divide)
  have "mset [ex_lo, ex_hi] = mset [ex_hi, ex_lo]" by simp
  then have ex: "\<exists>cs. mset cs = mset [ex_hi, ex_lo] \<and> list_all2 encloses cs [1/4, 2/3]"
    using enc by blast
  have dis: "disjoint_bounds [ex_hi, ex_lo]"
    by (simp add: disjoint_bounds_def ex_lo_def ex_hi_def)
  have asc: "sorted_wrt (<) [1/4, 2/3 :: real]" by simp
  have ci: "candidates_isolate [ex_hi, ex_lo] [1/4, 2/3]"
    unfolding candidates_isolate_def using asc dis ex by (intro conjI)
  have h3: "candidates_isolate (ex_fast_traits (control_points ex_curve) 0 1)
           (fst (get_vertical_tangencies ex_isolate_two empty_cache
              (curve_id ex_curve) (x_polynomial ex_curve) (x_norm ex_curve)))"
    unfolding tb g by (rule ci)
  have h4: "\<exists>c \<in> set (ex_unref_traits (control_points ex_curve) 0 1). \<not> can_refine (fst c)"
    unfolding tb' using ex_flags(4) by simp
  have h5: "list_all rational_collapsed (ex_unref_traits (control_points ex_curve) 0 1)"
    unfolding tb' by (simp add: ex_flags)
  have "\<exists>oi_f cache_f oi_e cache_e arcs_f arcs_e.
      Make_x_monotone_2 ex_fast_traits ex_isolate_two empty_cache ex_curve ex_oi = Inr (oi_f, cache_f) \<and>
      Make_x_monotone_2 ex_unref_traits ex_isolate_two empty_cache ex_curve ex_oi = Inr (oi_e, cache_e) \<and>
      emitted oi_f = emitted ex_oi @ map make_object arcs_f \<and>
      emitted oi_e = emitted ex_oi @ map make_object arcs_e \<and>
      length arcs_f = length arcs_e \<and>
      list_all2 arcs_agree arcs_f arcs_e"
    using fast_path_agrees_with_exact_path [of ex_fast_traits ex_curve ex_isolate_two empty_cache
        ex_unref_traits ex_oi, OF h1 h2 h3 h4 h5] .
  then have "\<exists>oi_f cache_f oi_e cache_e arcs_f arcs_e.
      Make_x_monotone_2 ex_fast_traits ex_isolate_two empty_cache ex_curve ex_oi = Inr (oi_f, cache_f) \<and>
      Make_x_monotone_2 ex_unref_traits ex_isolate_two empty_cache ex_curve ex_oi = Inr (oi_e, cache_e) \<and>
      emitted oi_f = map make_object arcs_f \<and>
      emitted oi_e = map make_object arcs_e \<and>
      length arcs_f = length arcs_e \<and>
      list_all2 arcs_agree arcs_f arcs_e"
    by (simp add: ex_oi_def)
  then show ?thesis using ci by (intro conjI)
qed

text \<open>
  C4. On every iteration the bound that the loop selects and erases has the smallest
  \<open>t_min\<close> among the bounds still pending; the points that the loop has materialised
  come from candidates in non-decreasing order of \<open>t_min\<close>; and when the fast path
  succeeds, the interior endpoints of the emitted arcs are these points, in this order.
\<close>

theorem selection_by_minimal_t_min:
  "(tb \<noteq> [] \<longrightarrow>
      locate_min tb 0 1 < length tb \<and>
      (\<forall>c \<in> set tb. t_min (fst (tb ! locate_min tb 0 1)) \<le> t_min (fst c)) \<and>
      (can_refine (fst (tb ! locate_min tb 0 1)) \<and> rational_collapsed (tb ! locate_min tb 0 1) \<longrightarrow>
         approx_loop B tb acc =
           approx_loop B (erase tb (locate_min tb 0 1))
             (acc @ [spec_tang_point B (tb ! locate_min tb 0 1)]))) \<and>
   (\<forall>ok tang_points. approx_loop B tb [] = Inr (ok, tang_points) \<longrightarrow>
      (\<exists>sel. tang_points = map (spec_tang_point B) sel \<and> set sel \<subseteq> set tb \<and>
         sorted (map (\<lambda>c. t_min (fst c)) sel) \<and> (ok \<longrightarrow> mset sel = mset tb))) \<and>
   (\<forall>oi' cache'.
      list_all (\<lambda>c. can_refine (fst c)) (vtp (control_points B) 0 1) \<and>
      Make_x_monotone_2 vtp isolate cache B oi = Inr (oi', cache') \<longrightarrow>
      (\<exists>sel arcs. mset sel = mset (vtp (control_points B) 0 1) \<and>
         sorted (map (\<lambda>c. t_min (fst c)) sel) \<and>
         emitted oi' = emitted oi @ map make_object arcs \<and>
         map pt (butlast arcs) = map (spec_tang_point B) sel \<and>
         map ps (tl arcs) = map (spec_tang_point B) sel))"
proof (intro conjI impI allI)
  assume "tb \<noteq> []"
  then show "locate_min tb 0 1 < length tb" by (simp add: locate_min_less)
next
  assume "tb \<noteq> []"
  then show "\<forall>c \<in> set tb. t_min (fst (tb ! locate_min tb 0 1)) \<le> t_min (fst c)"
    using locate_min_minimal by blast
next
  assume ne: "tb \<noteq> []"
    and c: "can_refine (fst (tb ! locate_min tb 0 1)) \<and> rational_collapsed (tb ! locate_min tb 0 1)"
  have mk: "make_tang_point B (fst (tb ! locate_min tb 0 1)) (snd (tb ! locate_min tb 0 1)) =
      Inr (spec_tang_point B (tb ! locate_min tb 0 1))"
    using c by (simp add: make_tang_point_eq)
  show "approx_loop B tb acc =
           approx_loop B (erase tb (locate_min tb 0 1))
             (acc @ [spec_tang_point B (tb ! locate_min tb 0 1)])"
    using ne c mk by (subst approx_loop.simps) (simp add: Let_def)
next
  fix ok tang_points
  assume r: "approx_loop B tb [] = Inr (ok, tang_points)"
  have "ok \<longrightarrow> mset (selected_before_break tb) = mset tb"
    using approx_loop_Inr(2) [OF r]
    by (simp add: selected_before_break_all mset_selection_order)
  then show "\<exists>sel. tang_points = map (spec_tang_point B) sel \<and> set sel \<subseteq> set tb \<and>
         sorted (map (\<lambda>c. t_min (fst c)) sel) \<and> (ok \<longrightarrow> mset sel = mset tb)"
    using approx_loop_Inr(1) [OF r] set_selected_before_break [of tb]
      sorted_selected_before_break [of tb]
    by (intro exI [of _ "selected_before_break tb"]) simp
next
  fix oi' cache'
  assume a: "list_all (\<lambda>c. can_refine (fst c)) (vtp (control_points B) 0 1) \<and>
      Make_x_monotone_2 vtp isolate cache B oi = Inr (oi', cache')"
  define sel where "sel = selection_order (vtp (control_points B) 0 1)"
  from a obtain mid where mid:
    "emitted oi' = emitted oi @
           map make_object (arcs_between B (Point_2_rat B 0 # mid @ [Point_2_rat B 1]))"
    "mid = map (spec_tang_point B) sel"
    unfolding sel_def by (blast elim: Make_x_monotone_2_Inr_cases)
  let ?arcs = "arcs_between B (Point_2_rat B 0 # mid @ [Point_2_rat B 1])"
  have "mset sel = mset (vtp (control_points B) 0 1) \<and>
         sorted (map (\<lambda>c. t_min (fst c)) sel) \<and>
         emitted oi' = emitted oi @ map make_object ?arcs \<and>
         map pt (butlast ?arcs) = map (spec_tang_point B) sel \<and>
         map ps (tl ?arcs) = map (spec_tang_point B) sel"
    using mid arcs_chain(6,7) [of B "Point_2_rat B 0" mid "Point_2_rat B 1"]
    unfolding sel_def by (simp add: mset_selection_order sorted_selection_order)
  then show "\<exists>sel arcs. mset sel = mset (vtp (control_points B) 0 1) \<and>
         sorted (map (\<lambda>c. t_min (fst c)) sel) \<and>
         emitted oi' = emitted oi @ map make_object arcs \<and>
         map pt (butlast arcs) = map (spec_tang_point B) sel \<and>
         map ps (tl arcs) = map (spec_tang_point B) sel"
    by (intro exI [of _ sel] exI [of _ ?arcs])
qed

theorem selection_by_minimal_t_min_witness:
  "locate_min [ex_hi, ex_lo] 0 1 < 2 \<and>
   t_min (fst ([ex_hi, ex_lo] ! locate_min [ex_hi, ex_lo] 0 1)) \<le> t_min (fst ex_hi) \<and>
   approx_loop ex_curve [ex_hi, ex_lo] [] =
     approx_loop ex_curve (erase [ex_hi, ex_lo] (locate_min [ex_hi, ex_lo] 0 1))
       [spec_tang_point ex_curve ([ex_hi, ex_lo] ! locate_min [ex_hi, ex_lo] 0 1)] \<and>
   (\<exists>sel. mset sel = mset [ex_hi, ex_lo] \<and> sorted (map (\<lambda>c. t_min (fst c)) sel) \<and>
      approx_loop ex_curve [ex_hi, ex_lo] [] = Inr (True, map (spec_tang_point ex_curve) sel)) \<and>
   (\<exists>oi' cache' sel arcs.
      Make_x_monotone_2 ex_fast_traits ex_isolate empty_cache ex_curve ex_oi = Inr (oi', cache') \<and>
      mset sel = mset [ex_hi, ex_lo] \<and> sorted (map (\<lambda>c. t_min (fst c)) sel) \<and>
      emitted oi' = map make_object arcs \<and>
      map pt (butlast arcs) = map (spec_tang_point ex_curve) sel)"
proof -
  note inst = selection_by_minimal_t_min [of "[ex_hi, ex_lo]" ex_curve "[]" ex_fast_traits
      ex_isolate empty_cache ex_oi]
  have ne: "[ex_hi, ex_lo] \<noteq> []" by simp
  have loc: "locate_min [ex_hi, ex_lo] 0 1 = 1"
    by (simp add: locate_min.simps ex_hi_def ex_lo_def compare_def)
  have c1: "locate_min [ex_hi, ex_lo] 0 1 < length [ex_hi, ex_lo]"
    "\<forall>c \<in> set [ex_hi, ex_lo].
        t_min (fst ([ex_hi, ex_lo] ! locate_min [ex_hi, ex_lo] 0 1)) \<le> t_min (fst c)"
    "can_refine (fst ([ex_hi, ex_lo] ! locate_min [ex_hi, ex_lo] 0 1)) \<and>
       rational_collapsed ([ex_hi, ex_lo] ! locate_min [ex_hi, ex_lo] 0 1) \<longrightarrow>
     approx_loop ex_curve [ex_hi, ex_lo] [] =
       approx_loop ex_curve (erase [ex_hi, ex_lo] (locate_min [ex_hi, ex_lo] 0 1))
         ([] @ [spec_tang_point ex_curve ([ex_hi, ex_lo] ! locate_min [ex_hi, ex_lo] 0 1)])"
    using mp [OF conjunct1 [OF inst] ne] by blast+
  have sel_ok: "can_refine (fst ([ex_hi, ex_lo] ! locate_min [ex_hi, ex_lo] 0 1)) \<and>
       rational_collapsed ([ex_hi, ex_lo] ! locate_min [ex_hi, ex_lo] 0 1)"
    unfolding loc by (simp add: ex_flags)
  have a: "locate_min [ex_hi, ex_lo] 0 1 < 2" using c1(1) by simp
  have b: "t_min (fst ([ex_hi, ex_lo] ! locate_min [ex_hi, ex_lo] 0 1)) \<le> t_min (fst ex_hi)"
    using c1(2) by simp
  have c: "approx_loop ex_curve [ex_hi, ex_lo] [] =
     approx_loop ex_curve (erase [ex_hi, ex_lo] (locate_min [ex_hi, ex_lo] 0 1))
       [spec_tang_point ex_curve ([ex_hi, ex_lo] ! locate_min [ex_hi, ex_lo] 0 1)]"
    using mp [OF c1(3) sel_ok] by simp
  have sbb: "selected_before_break [ex_hi, ex_lo] = [ex_lo, ex_hi]"
    by (simp add: selected_before_break_def ex_selection_fast ex_flags)
  have loop: "approx_loop ex_curve [ex_hi, ex_lo] [] =
      Inr (True, map (spec_tang_point ex_curve) [ex_lo, ex_hi])"
    by (simp add: approx_loop_result sbb ex_flags)
  obtain sel where sel: "map (spec_tang_point ex_curve) [ex_lo, ex_hi] = map (spec_tang_point ex_curve) sel"
      "sorted (map (\<lambda>c. t_min (fst c)) sel)" "True \<longrightarrow> mset sel = mset [ex_hi, ex_lo]"
    using mp [OF spec [OF spec [OF conjunct1 [OF conjunct2 [OF inst]]]] loop] by blast
  have d: "\<exists>sel. mset sel = mset [ex_hi, ex_lo] \<and> sorted (map (\<lambda>c. t_min (fst c)) sel) \<and>
      approx_loop ex_curve [ex_hi, ex_lo] [] = Inr (True, map (spec_tang_point ex_curve) sel)"
    using sel loop by (intro exI [of _ sel]) simp
  have tb: "ex_fast_traits (control_points ex_curve) 0 1 = [ex_hi, ex_lo]"
    by (simp add: ex_fast_traits_def)
  have wf: "list_all rational_collapsed (ex_fast_traits (control_points ex_curve) 0 1)"
    and ref: "list_all (\<lambda>c. can_refine (fst c)) (ex_fast_traits (control_points ex_curve) 0 1)"
    unfolding tb by (simp_all add: ex_flags)
  obtain oi' cache' where r:
    "Make_x_monotone_2 ex_fast_traits ex_isolate empty_cache ex_curve ex_oi = Inr (oi', cache')"
    using Make_x_monotone_2_total [of ex_fast_traits ex_curve ex_isolate empty_cache ex_oi, OF wf] by fastforce
  obtain sel' arcs where s': "mset sel' = mset (ex_fast_traits (control_points ex_curve) 0 1)"
      "sorted (map (\<lambda>c. t_min (fst c)) sel')"
      "emitted oi' = emitted ex_oi @ map make_object arcs"
      "map pt (butlast arcs) = map (spec_tang_point ex_curve) sel'"
    using mp [OF spec [OF spec [OF conjunct2 [OF conjunct2 [OF inst]]]] conjI [OF ref r]] by blast
  have e: "\<exists>oi' cache' sel arcs.
      Make_x_monotone_2 ex_fast_traits ex_isolate empty_cache ex_curve ex_oi = Inr (oi', cache') \<and>
      mset sel = mset [ex_hi, ex_lo] \<and> sorted (map (\<lambda>c. t_min (fst c)) sel) \<and>
      emitted oi' = map make_object arcs \<and>
      map pt (butlast arcs) = map (spec_tang_point ex_curve) sel"
    using r s' unfolding tb
    by (intro exI [of _ oi'] exI [of _ cache'] exI [of _ sel'] exI [of _ arcs]) (simp add: ex_oi_def)
  show ?thesis using a b c d e by (intro conjI)
qed

text \<open>
  C5. A refinable bound of type \<open>RATIONAL_PT\<close> (with \<open>t_min = t_max\<close>) becomes the exact
  point of the curve at the rational parameter \<open>t_min\<close>; a refinable bound of another type
  becomes a point whose only originator is the curve with the bound; in both cases the
  candidate's box is attached. Every point that the consumption loop returns was made so
  from a refinable candidate, and when the loop succeeds every candidate has its point.
\<close>

theorem refinable_bound_materialized:
  "(point_type bound = RATIONAL_PT \<and> t_min bound = t_max bound \<longrightarrow>
      make_tang_point B bound bb = Inr (set_bbox (Point_2_rat B (t_min bound)) bb) \<and>
      set_bbox (Point_2_rat B (t_min bound)) bb =
        \<lparr>originators = [\<lparr>orig_curve = B, orig_param = Rat_param (t_min bound)\<rparr>],
         bbox = Some bb\<rparr>) \<and>
   (point_type bound \<noteq> RATIONAL_PT \<longrightarrow>
      make_tang_point B bound bb =
        Inr (set_bbox (add_originator Point_2_default (Originator_of B bound)) bb) \<and>
      set_bbox (add_originator Point_2_default (Originator_of B bound)) bb =
        \<lparr>originators = [\<lparr>orig_curve = B, orig_param = Bound_param bound\<rparr>],
         bbox = Some bb\<rparr>) \<and>
   (\<forall>ok tang_points. approx_loop B tb [] = Inr (ok, tang_points) \<longrightarrow>
      (\<exists>sel. set sel \<subseteq> set tb \<and> (\<forall>c \<in> set sel. can_refine (fst c)) \<and>
         (ok \<longrightarrow> mset sel = mset tb) \<and>
         tang_points =
           map (\<lambda>c. if point_type (fst c) = RATIONAL_PT
                    then set_bbox (Point_2_rat B (t_min (fst c))) (snd c)
                    else set_bbox (add_originator Point_2_default (Originator_of B (fst c))) (snd c))
             sel))"
proof (intro conjI impI allI)
  assume a: "point_type bound = RATIONAL_PT \<and> t_min bound = t_max bound"
  then show "make_tang_point B bound bb = Inr (set_bbox (Point_2_rat B (t_min bound)) bb)"
    by (simp add: make_tang_point_def compare_def)
  show "set_bbox (Point_2_rat B (t_min bound)) bb =
        \<lparr>originators = [\<lparr>orig_curve = B, orig_param = Rat_param (t_min bound)\<rparr>],
         bbox = Some bb\<rparr>"
    by (simp add: set_bbox_def Point_2_rat_def)
next
  assume a: "point_type bound \<noteq> RATIONAL_PT"
  then show "make_tang_point B bound bb =
        Inr (set_bbox (add_originator Point_2_default (Originator_of B bound)) bb)"
    by (simp add: make_tang_point_def)
  show "set_bbox (add_originator Point_2_default (Originator_of B bound)) bb =
        \<lparr>originators = [\<lparr>orig_curve = B, orig_param = Bound_param bound\<rparr>],
         bbox = Some bb\<rparr>"
    by (simp add: set_bbox_def add_originator_def Point_2_default_def Originator_of_def)
next
  fix ok tang_points
  assume r: "approx_loop B tb [] = Inr (ok, tang_points)"
  let ?mk = "\<lambda>c. if point_type (fst c) = RATIONAL_PT
                    then set_bbox (Point_2_rat B (t_min (fst c))) (snd c)
                    else set_bbox (add_originator Point_2_default (Originator_of B (fst c))) (snd c)"
  have eq: "spec_tang_point B = ?mk"
    by (rule ext)
       (simp add: spec_tang_point_def set_bbox_def Point_2_rat_def add_originator_def
          Point_2_default_def Originator_of_def)
  have ok: "ok \<longrightarrow> mset (selected_before_break tb) = mset tb"
    using approx_loop_Inr(2) [OF r]
    by (simp add: selected_before_break_all mset_selection_order)
  have ref: "\<forall>c \<in> set (selected_before_break tb). can_refine (fst c)"
    using refinable_selected_before_break [of tb] by (simp add: list_all_iff)
  have "tang_points = map ?mk (selected_before_break tb)"
    using approx_loop_Inr(1) [OF r] unfolding eq .
  then show "\<exists>sel. set sel \<subseteq> set tb \<and> (\<forall>c \<in> set sel. can_refine (fst c)) \<and>
         (ok \<longrightarrow> mset sel = mset tb) \<and> tang_points = map ?mk sel"
    using set_selected_before_break [of tb] ok ref
    by (intro exI [of _ "selected_before_break tb"]) simp
qed

theorem refinable_bound_materialized_witness:
  "make_tang_point ex_curve (fst ex_lo) ex_bbox =
     Inr \<lparr>originators = [\<lparr>orig_curve = ex_curve, orig_param = Rat_param (1/4)\<rparr>],
          bbox = Some ex_bbox\<rparr> \<and>
   make_tang_point ex_curve (fst ex_hi) ex_bbox =
     Inr \<lparr>originators = [\<lparr>orig_curve = ex_curve, orig_param = Bound_param (fst ex_hi)\<rparr>],
          bbox = Some ex_bbox\<rparr> \<and>
   (\<exists>sel. mset sel = mset [ex_hi, ex_lo] \<and>
      approx_loop ex_curve [ex_hi, ex_lo] [] =
        Inr (True, map (\<lambda>c. if point_type (fst c) = RATIONAL_PT
                    then set_bbox (Point_2_rat ex_curve (t_min (fst c))) (snd c)
                    else set_bbox (add_originator Point_2_default (Originator_of ex_curve (fst c)))
                           (snd c)) sel))"
proof -
  note lo = refinable_bound_materialized [of "fst ex_lo" ex_curve ex_bbox "[ex_hi, ex_lo]"]
  note hi = refinable_bound_materialized [of "fst ex_hi" ex_curve ex_bbox "[ex_hi, ex_lo]"]
  have plo: "point_type (fst ex_lo) = RATIONAL_PT \<and> t_min (fst ex_lo) = t_max (fst ex_lo)"
    by (simp add: ex_lo_def)
  have phi: "point_type (fst ex_hi) \<noteq> RATIONAL_PT" by (simp add: ex_hi_def)
  have a: "make_tang_point ex_curve (fst ex_lo) ex_bbox =
     Inr \<lparr>originators = [\<lparr>orig_curve = ex_curve, orig_param = Rat_param (1/4)\<rparr>],
          bbox = Some ex_bbox\<rparr>"
    using mp [OF conjunct1 [OF lo] plo] by (simp add: ex_lo_def)
  have b: "make_tang_point ex_curve (fst ex_hi) ex_bbox =
     Inr \<lparr>originators = [\<lparr>orig_curve = ex_curve, orig_param = Bound_param (fst ex_hi)\<rparr>],
          bbox = Some ex_bbox\<rparr>"
    using mp [OF conjunct1 [OF conjunct2 [OF hi]] phi] by simp
  have sbb: "selected_before_break [ex_hi, ex_lo] = [ex_lo, ex_hi]"
    by (simp add: selected_before_break_def ex_selection_fast ex_flags)
  have loop: "approx_loop ex_curve [ex_hi, ex_lo] [] =
      Inr (True, map (spec_tang_point ex_curve) [ex_lo, ex_hi])"
    by (simp add: approx_loop_result sbb ex_flags)
  let ?mk = "\<lambda>c. if point_type (fst c) = RATIONAL_PT
                    then set_bbox (Point_2_rat ex_curve (t_min (fst c))) (snd c)
                    else set_bbox (add_originator Point_2_default (Originator_of ex_curve (fst c)))
                           (snd c)"
  obtain sel where sel: "True \<longrightarrow> mset sel = mset [ex_hi, ex_lo]"
      "map (spec_tang_point ex_curve) [ex_lo, ex_hi] = map ?mk sel"
    using mp [OF spec [OF spec [OF conjunct2 [OF conjunct2 [OF lo]]]] loop] by blast
  have c: "\<exists>sel. mset sel = mset [ex_hi, ex_lo] \<and>
      approx_loop ex_curve [ex_hi, ex_lo] [] = Inr (True, map ?mk sel)"
    using sel loop by (intro exI [of _ sel]) simp
  show ?thesis using a b c by (intro conjI)
qed

text \<open>
  C6. Ownership of the tables: the default constructor allocates two fresh tables and
  sets the owner flag; the copy constructor shares the source's two pointers and clears
  the flag; the destructor of a non-owner leaves the heap of tables as it is; the
  destructor of an owner (in a world reached by running facade operations from the
  empty world) releases both of its tables and no other.
\<close>

theorem ownership_discipline:
  "(objs w this = None \<longrightarrow>
      (\<exists>w'. default_ctor this w = Inr w' \<and>
         objs w' this = Some \<lparr>m_cache = length (tables w),
                              m_inter_map = Suc (length (tables w)), m_owner = True\<rparr> \<and>
         \<not> allocated (tables w) (length (tables w)) \<and>
         \<not> allocated (tables w) (Suc (length (tables w))) \<and>
         tables w' = tables w @ [Some (Cache_cell empty_cache), Some (Imap_cell [])] \<and>
         allocated (tables w') (length (tables w)) \<and>
         allocated (tables w') (Suc (length (tables w))))) \<and>
   (objs w this = None \<and> objs w tr = Some t \<longrightarrow>
      (\<exists>w'. copy_ctor this tr w = Inr w' \<and>
         objs w' this = Some \<lparr>m_cache = m_cache t, m_inter_map = m_inter_map t,
                              m_owner = False\<rparr> \<and>
         objs w' tr = Some t \<and> tables w' = tables w)) \<and>
   (objs w this = Some f \<and> \<not> m_owner f \<longrightarrow>
      (\<exists>w'. dtor this w = Inr w' \<and> objs w' this = None \<and> tables w' = tables w)) \<and>
   (run init_world acts = Inr w \<and> objs w this = Some f \<and> m_owner f \<longrightarrow>
      (\<exists>w'. dtor this w = Inr w' \<and> objs w' this = None \<and>
         allocated (tables w) (m_cache f) \<and> allocated (tables w) (m_inter_map f) \<and>
         \<not> allocated (tables w') (m_cache f) \<and> \<not> allocated (tables w') (m_inter_map f) \<and>
         (\<forall>p. p \<noteq> m_cache f \<and> p \<noteq> m_inter_map f \<longrightarrow>
            allocated (tables w') p = allocated (tables w) p)))"
proof (intro conjI impI)
  assume "objs w this = None"
  then show "\<exists>w'. default_ctor this w = Inr w' \<and>
         objs w' this = Some \<lparr>m_cache = length (tables w),
                              m_inter_map = Suc (length (tables w)), m_owner = True\<rparr> \<and>
         \<not> allocated (tables w) (length (tables w)) \<and>
         \<not> allocated (tables w) (Suc (length (tables w))) \<and>
         tables w' = tables w @ [Some (Cache_cell empty_cache), Some (Imap_cell [])] \<and>
         allocated (tables w') (length (tables w)) \<and>
         allocated (tables w') (Suc (length (tables w)))"
    by (simp add: default_ctor_unfold allocated_fresh allocated_new)
next
  assume "objs w this = None \<and> objs w tr = Some t"
  then show "\<exists>w'. copy_ctor this tr w = Inr w' \<and>
         objs w' this = Some \<lparr>m_cache = m_cache t, m_inter_map = m_inter_map t,
                              m_owner = False\<rparr> \<and>
         objs w' tr = Some t \<and> tables w' = tables w"
    by (auto simp: copy_ctor_def)
next
  assume "objs w this = Some f \<and> \<not> m_owner f"
  then show "\<exists>w'. dtor this w = Inr w' \<and> objs w' this = None \<and> tables w' = tables w"
    by (simp add: dtor_def)
next
  assume a: "run init_world acts = Inr w \<and> objs w this = Some f \<and> m_owner f"
  then have ok: "owners_ok w" using reachable_owners_ok by blast
  have d: "allocated (tables w) (m_cache f)" "allocated (tables w) (m_inter_map f)"
      "m_cache f \<noteq> m_inter_map f"
    using owners_okD1 [OF ok] a by blast+
  have u: "dtor this w =
     Inr (w\<lparr>objs := (objs w)(this := None),
            tables := (tables w)[m_cache f := None, m_inter_map f := None]\<rparr>)"
    using dtor_owner_unfold [OF _ _ d] a by blast
  show "\<exists>w'. dtor this w = Inr w' \<and> objs w' this = None \<and>
         allocated (tables w) (m_cache f) \<and> allocated (tables w) (m_inter_map f) \<and>
         \<not> allocated (tables w') (m_cache f) \<and> \<not> allocated (tables w') (m_inter_map f) \<and>
         (\<forall>p. p \<noteq> m_cache f \<and> p \<noteq> m_inter_map f \<longrightarrow>
            allocated (tables w') p = allocated (tables w) p)"
    unfolding u using d by (auto simp: allocated_def nth_list_update)
qed

theorem ownership_discipline_witness:
  "(\<exists>w'. default_ctor 2 ex_world = Inr w' \<and>
       objs w' 2 = Some \<lparr>m_cache = 4, m_inter_map = 5, m_owner = True\<rparr> \<and>
       \<not> allocated (tables ex_world) 4 \<and> allocated (tables w') 4 \<and> allocated (tables w') 5) \<and>
   (\<exists>w'. copy_ctor 2 0 ex_world = Inr w' \<and>
       objs w' 2 = Some \<lparr>m_cache = 0, m_inter_map = 1, m_owner = False\<rparr> \<and>
       tables w' = tables ex_world) \<and>
   (\<exists>w'. dtor 2 ex_world_copy = Inr w' \<and> tables w' = tables ex_world_copy) \<and>
   (\<exists>w'. dtor 0 ex_world = Inr w' \<and>
       \<not> allocated (tables w') 0 \<and> \<not> allocated (tables w') 1 \<and>
       allocated (tables w') 2 \<and> allocated (tables w') 3)"
proof -
  let ?f0 = "\<lparr>m_cache = 0, m_inter_map = 1, m_owner = True\<rparr>"
  let ?f2 = "\<lparr>m_cache = 0, m_inter_map = 1, m_owner = False\<rparr>"
  note od = ownership_discipline
  have len: "length (tables ex_world) = 4"
    by (simp add: ex_world_def)
  have a: "\<exists>w'. default_ctor 2 ex_world = Inr w' \<and>
       objs w' 2 = Some \<lparr>m_cache = 4, m_inter_map = 5, m_owner = True\<rparr> \<and>
       \<not> allocated (tables ex_world) 4 \<and> allocated (tables w') 4 \<and> allocated (tables w') 5"
    using mp [OF conjunct1 [OF od [of ex_world 2]] ex_world_objs(3)]
    by (auto simp: len)
  have b: "\<exists>w'. copy_ctor 2 0 ex_world = Inr w' \<and>
       objs w' 2 = Some \<lparr>m_cache = 0, m_inter_map = 1, m_owner = False\<rparr> \<and>
       tables w' = tables ex_world"
    using mp [OF conjunct1 [OF conjunct2 [OF od [of ex_world 2 0 ?f0]]]
        conjI [OF ex_world_objs(3) ex_world_objs(1)]]
    by auto
  have c0: "objs ex_world_copy 2 = Some ?f2 \<and> \<not> m_owner ?f2"
    by (simp add: ex_world_copy_def)
  have c: "\<exists>w'. dtor 2 ex_world_copy = Inr w' \<and> tables w' = tables ex_world_copy"
    using mp [OF conjunct1 [OF conjunct2 [OF conjunct2 [OF od [of ex_world_copy 2 _ _ ?f2]]]] c0]
    by auto
  have d1: "run init_world [Construct 0, Construct 1] = Inr ex_world \<and>
      objs ex_world 0 = Some ?f0 \<and> m_owner ?f0"
    using ex_world_reachable ex_world_objs(1) by simp
  have al: "allocated (tables ex_world) 2" "allocated (tables ex_world) 3"
    by (simp_all add: ex_world_def allocated_def)
  have d: "\<exists>w'. dtor 0 ex_world = Inr w' \<and>
       \<not> allocated (tables w') 0 \<and> \<not> allocated (tables w') 1 \<and>
       allocated (tables w') 2 \<and> allocated (tables w') 3"
    using mp [OF conjunct2 [OF conjunct2 [OF conjunct2 [OF od [of ex_world 0 _ _ ?f0
        "[Construct 0, Construct 1]"]]]] d1] al
    by auto
  show ?thesis using a b c d by (intro conjI)
qed

text \<open>
  C7 (as amended). With the facade's cache and intersection map live, the call of each
  functor other than \<open>Make_x_monotone_2\<close> and \<open>Compare_endpoints_xy_2\<close> returns what the
  member function of \<open>Point_2\<close> or \<open>X_monotone_curve_2\<close> returns on the same arguments
  and on the tables behind the facade's pointers, and stores back the tables that the
  member function leaves; the functors of a copy of the facade are those of the facade.
\<close>

theorem functors_forward:
  assumes "cache_at (tables w) (m_cache tr) = Some cache"
    and "imap_at (tables w) (m_inter_map tr) = Some imap"
  shows
    "(Compare_x_2_call ops w (compare_x_2_object tr) p1 p2 =
           Inr (fst (pt_compare_x ops p1 p2 cache),
                put_cache w (m_cache tr) (snd (pt_compare_x ops p1 p2 cache)))) \<and>
     (Compare_xy_2_call ops w (compare_xy_2_object tr) p1 p2 =
           Inr (fst (pt_compare_xy ops p1 p2 cache),
                put_cache w (m_cache tr) (snd (pt_compare_xy ops p1 p2 cache)))) \<and>
     (Construct_min_vertex_2_call ops (construct_min_vertex_2_object tr) cv = cv_left ops cv) \<and>
     (Construct_max_vertex_2_call ops (construct_max_vertex_2_object tr) cv = cv_right ops cv) \<and>
     (Is_vertical_2_call ops (is_vertical_2_object tr) cv = cv_is_vertical ops cv) \<and>
     (Compare_y_at_x_2_call ops w (compare_y_at_x_2_object tr) p cv =
           Inr (fst (cv_point_position ops cv p cache),
                put_cache w (m_cache tr) (snd (cv_point_position ops cv p cache)))) \<and>
     (Compare_y_at_x_left_2_call ops w (compare_y_at_x_left_2_object tr) cv1 cv2 p =
           Inr (fst (cv_compare_to_left ops cv1 cv2 p cache),
                put_cache w (m_cache tr) (snd (cv_compare_to_left ops cv1 cv2 p cache)))) \<and>
     (Compare_y_at_x_right_2_call ops w (compare_y_at_x_right_2_object tr) cv1 cv2 p =
           Inr (fst (cv_compare_to_right ops cv1 cv2 p cache),
                put_cache w (m_cache tr) (snd (cv_compare_to_right ops cv1 cv2 p cache)))) \<and>
     (Equal_2_call_curves ops w (equal_2_object tr) cv1 cv2 =
           Inr (fst (cv_equals ops cv1 cv2 cache),
                put_cache w (m_cache tr) (snd (cv_equals ops cv1 cv2 cache)))) \<and>
     (Equal_2_call_points ops w (equal_2_object tr) p1 p2 =
           Inr (fst (pt_equals ops p1 p2 cache),
                put_cache w (m_cache tr) (snd (pt_equals ops p1 p2 cache)))) \<and>
     (Split_2_call ops (split_2_object tr) cv p = cv_split ops cv p) \<and>
     (Intersect_2_call ops w (intersect_2_object tr) cv1 cv2 oi =
           (case cv_intersect ops cv1 cv2 imap cache oi of
              (oi', imap', cache') \<Rightarrow>
                Inr (oi', put_cache (put_imap w (m_inter_map tr) imap') (m_cache tr) cache'))) \<and>
     (Are_mergeable_2_call ops (are_mergeable_2_object tr) cv1 cv2 = cv_can_merge_with ops cv1 cv2) \<and>
     (Merge_2_call ops (merge_2_object tr) cv1 cv2 = cv_merge ops cv1 cv2) \<and>
     (Construct_opposite_2_call ops (construct_opposite_2_object tr) cv = cv_flip ops cv) \<and>
     (objs w0 this = None \<and> objs w0 src = Some tr \<longrightarrow>
           (\<exists>w1 tr'. copy_ctor this src w0 = Inr w1 \<and> objs w1 this = Some tr' \<and>
              compare_x_2_object tr' = compare_x_2_object tr \<and>
              compare_xy_2_object tr' = compare_xy_2_object tr \<and>
              compare_y_at_x_2_object tr' = compare_y_at_x_2_object tr \<and>
              compare_y_at_x_left_2_object tr' = compare_y_at_x_left_2_object tr \<and>
              compare_y_at_x_right_2_object tr' = compare_y_at_x_right_2_object tr \<and>
              equal_2_object tr' = equal_2_object tr \<and>
              intersect_2_object tr' = intersect_2_object tr))"
proof -
  note c = with_cache_live [OF assms(1)]
  note object_defs = compare_x_2_object_def compare_xy_2_object_def
    construct_min_vertex_2_object_def construct_max_vertex_2_object_def is_vertical_2_object_def
    compare_y_at_x_2_object_def compare_y_at_x_left_2_object_def
    compare_y_at_x_right_2_object_def equal_2_object_def split_2_object_def
    intersect_2_object_def are_mergeable_2_object_def merge_2_object_def
    construct_opposite_2_object_def
  have copy: "objs w0 this = None \<and> objs w0 src = Some tr \<longrightarrow>
           (\<exists>w1 tr'. copy_ctor this src w0 = Inr w1 \<and> objs w1 this = Some tr' \<and>
              compare_x_2_object tr' = compare_x_2_object tr \<and>
              compare_xy_2_object tr' = compare_xy_2_object tr \<and>
              compare_y_at_x_2_object tr' = compare_y_at_x_2_object tr \<and>
              compare_y_at_x_left_2_object tr' = compare_y_at_x_left_2_object tr \<and>
              compare_y_at_x_right_2_object tr' = compare_y_at_x_right_2_object tr \<and>
              equal_2_object tr' = equal_2_object tr \<and>
              intersect_2_object tr' = intersect_2_object tr)"
    by (auto simp: copy_ctor_def object_defs)
  show ?thesis
    by (intro conjI copy) (simp_all add: object_defs c assms)
qed

theorem functors_forward_witness:
  "Compare_x_2_call ex_ops ex_world (compare_x_2_object ex_traits)
      (Point_2_rat ex_curve 0) (Point_2_rat ex_curve 1) = Inr (EQUAL, ex_world) \<and>
   Construct_min_vertex_2_call ex_ops (construct_min_vertex_2_object ex_traits) ex_arc =
      Point_2_rat ex_curve 0 \<and>
   Intersect_2_call ex_ops ex_world (intersect_2_object ex_traits) ex_arc ex_arc ex_oi =
      Inr (ex_oi, put_cache ex_world 0 \<lparr>vert_tang_map = [], intersect_map = [((7, 7), [])]\<rparr>) \<and>
   (\<exists>w1 tr'. copy_ctor 2 0 ex_world = Inr w1 \<and> objs w1 2 = Some tr' \<and>
      intersect_2_object tr' = intersect_2_object ex_traits)"
proof -
  note inst = functors_forward [OF ex_world_tables, where ops = ex_ops
      and ?p1.0 = "Point_2_rat ex_curve 0" and ?p2.0 = "Point_2_rat ex_curve 1"
      and cv = ex_arc and ?cv1.0 = ex_arc and ?cv2.0 = ex_arc and oi = ex_oi
      and ?w0.0 = ex_world and this = 2 and src = 0]
  have put_same: "put_cache ex_world 0 empty_cache = ex_world"
    by (simp add: put_cache_def ex_world_def)
  have put_imap_same: "put_imap ex_world (Suc 0) [] = ex_world"
    by (simp add: put_imap_def ex_world_def)
  have a: "Compare_x_2_call ex_ops ex_world (compare_x_2_object ex_traits)
      (Point_2_rat ex_curve 0) (Point_2_rat ex_curve 1) = Inr (EQUAL, ex_world)"
    using conjunct1 [OF inst] by (simp add: ex_ops_def put_same ex_traits_def)
  have b: "Construct_min_vertex_2_call ex_ops (construct_min_vertex_2_object ex_traits) ex_arc =
      Point_2_rat ex_curve 0"
    using conjunct1 [OF conjunct2 [OF conjunct2 [OF inst]]] by (simp add: ex_ops_def ex_arc_def)
  have c: "Intersect_2_call ex_ops ex_world (intersect_2_object ex_traits) ex_arc ex_arc ex_oi =
      Inr (ex_oi, put_cache ex_world 0 \<lparr>vert_tang_map = [], intersect_map = [((7, 7), [])]\<rparr>)"
    using conjunct1 [OF conjunct2 [OF conjunct2 [OF conjunct2 [OF conjunct2 [OF conjunct2
      [OF conjunct2 [OF conjunct2 [OF conjunct2 [OF conjunct2 [OF conjunct2 [OF conjunct2
      [OF inst]]]]]]]]]]]]
    by (simp add: ex_ops_def put_imap_same ex_arc_def ex_curve_def empty_cache_def ex_traits_def)
  have src: "objs ex_world 2 = None \<and> objs ex_world 0 = Some ex_traits"
    using ex_world_objs by (simp add: ex_traits_def)
  have d: "\<exists>w1 tr'. copy_ctor 2 0 ex_world = Inr w1 \<and> objs w1 2 = Some tr' \<and>
      intersect_2_object tr' = intersect_2_object ex_traits"
    using mp [OF conjunct2 [OF conjunct2 [OF conjunct2 [OF conjunct2 [OF conjunct2 [OF conjunct2
      [OF conjunct2 [OF conjunct2 [OF conjunct2 [OF conjunct2 [OF conjunct2 [OF conjunct2
      [OF conjunct2 [OF conjunct2 [OF conjunct2 [OF inst]]]]]]]]]]]]]]] src]
    by blast
  show ?thesis using a b c d by (intro conjI)
qed

text \<open>
  \<open>Compare_endpoints_xy_2\<close> is not a forwarder: on an arc that is directed right the
  member function returns the \<^verbatim>\<open>bool\<close> true and the functor returns \<open>SMALLER\<close>.
\<close>

theorem forwarder_counterexample:
  "cv_is_directed_right ex_ops ex_arc = True \<and>
   Compare_endpoints_xy_2_call ex_ops (compare_endpoints_xy_2_object ex_traits) ex_arc = SMALLER \<and>
   Comparison_value (Compare_endpoints_xy_2_call ex_ops (compare_endpoints_xy_2_object ex_traits) ex_arc)
     \<noteq> Bool_value (cv_is_directed_right ex_ops ex_arc)"
  by (simp add: ex_ops_def compare_endpoints_xy_2_object_def)

text \<open>
  C8. Assignment between two distinct facades copies the two pointers, clears the owner
  flag and deletes nothing; if the target was an owner in a reachable world, its two
  tables stay allocated and without an owner in every world reached afterwards.
\<close>

theorem assignment_abandons_tables:
  assumes "objs w x = Some fx" and "objs w y = Some fy" and "x \<noteq> y"
  shows "\<exists>w'. assign x y w = Inr (x, w') \<and>
           objs w' x = Some \<lparr>m_cache = m_cache fy, m_inter_map = m_inter_map fy,
                             m_owner = False\<rparr> \<and>
           (\<forall>z. z \<noteq> x \<longrightarrow> objs w' z = objs w z) \<and>
           tables w' = tables w \<and>
           (run init_world before = Inr w \<and> m_owner fx \<longrightarrow>
              (\<forall>later w''. run w' later = Inr w'' \<longrightarrow>
                 allocated (tables w'') (m_cache fx) \<and>
                 allocated (tables w'') (m_inter_map fx) \<and>
                 (\<forall>z fz. objs w'' z = Some fz \<and> m_owner fz \<longrightarrow>
                    m_cache fz \<noteq> m_cache fx \<and> m_inter_map fz \<noteq> m_inter_map fx)))"
proof -
  define w' where "w' = w\<lparr>objs := (objs w)(x := Some
        (fx\<lparr>m_cache := m_cache fy, m_inter_map := m_inter_map fy, m_owner := False\<rparr>))\<rparr>"
  have asg: "assign x y w = Inr (x, w')"
    using assms by (simp add: assign_def w'_def)
  have objx: "objs w' x = Some \<lparr>m_cache = m_cache fy, m_inter_map = m_inter_map fy,
                             m_owner = False\<rparr>"
    by (simp add: w'_def)
  have frame: "\<forall>z. z \<noteq> x \<longrightarrow> objs w' z = objs w z" "tables w' = tables w"
    by (simp_all add: w'_def)
  have leak: "allocated (tables w'') (m_cache fx) \<and>
        allocated (tables w'') (m_inter_map fx) \<and>
        (\<forall>z fz. objs w'' z = Some fz \<and> m_owner fz \<longrightarrow>
           m_cache fz \<noteq> m_cache fx \<and> m_inter_map fz \<noteq> m_inter_map fx)"
    if r: "run init_world before = Inr w" and own: "m_owner fx"
      and later: "run w' later = Inr w''" for later w''
  proof -
    have ok: "owners_ok w" using r by (rule reachable_owners_ok)
    have al: "allocated (tables w) (m_cache fx)" "allocated (tables w) (m_inter_map fx)"
      using owners_okD1 [OF ok assms(1) own] by simp_all
    have others: "m_cache fz \<noteq> m_cache fx \<and> m_inter_map fz \<noteq> m_cache fx \<and>
          m_cache fz \<noteq> m_inter_map fx \<and> m_inter_map fz \<noteq> m_inter_map fx"
      if "objs w' z = Some fz" "m_owner fz" for z fz
    proof -
      have "z \<noteq> x" using that objx by auto
      then have "objs w z = Some fz" using that(1) frame(1) by simp
      then show ?thesis
        using owners_okD2 [OF ok _ assms(1) that(2) own \<open>z \<noteq> x\<close>] by blast
    qed
    have o1: "orphan w' (m_cache fx)" and o2: "orphan w' (m_inter_map fx)"
      unfolding orphan_def frame(2) using al others by blast+
    have "orphan w'' (m_cache fx)" "orphan w'' (m_inter_map fx)"
      using run_orphan [OF later o1] run_orphan [OF later o2] by simp_all
    then show ?thesis unfolding orphan_def by blast
  qed
  show ?thesis
    using asg objx frame leak by blast
qed

theorem assignment_abandons_tables_witness:
  "\<exists>w''. run init_world [Construct 0, Construct 1, Assign 0 1, Destroy 0, Destroy 1] = Inr w'' \<and>
      allocated (tables w'') 0 \<and> allocated (tables w'') 1 \<and>
      \<not> allocated (tables w'') 2 \<and> \<not> allocated (tables w'') 3"
proof -
  let ?f0 = "\<lparr>m_cache = 0, m_inter_map = 1, m_owner = True\<rparr>"
  have ne: "(0::nat) \<noteq> 1" by simp
  from assignment_abandons_tables [OF ex_world_objs(1) ex_world_objs(2) ne,
        of "[Construct 0, Construct 1]"]
  obtain w' where w': "assign 0 1 ex_world = Inr (0, w')"
    and leak: "run init_world [Construct 0, Construct 1] = Inr ex_world \<and> m_owner ?f0 \<longrightarrow>
       (\<forall>later w''. run w' later = Inr w'' \<longrightarrow>
          allocated (tables w'') (m_cache ?f0) \<and> allocated (tables w'') (m_inter_map ?f0) \<and>
          (\<forall>z fz. objs w'' z = Some fz \<and> m_owner fz \<longrightarrow>
             m_cache fz \<noteq> m_cache ?f0 \<and> m_inter_map fz \<noteq> m_inter_map ?f0))"
    by blast
  have "assign 0 1 ex_world = Inr (0, ex_world\<lparr>objs := (objs ex_world)
        (0 := Some \<lparr>m_cache = 2, m_inter_map = 3, m_owner = False\<rparr>)\<rparr>)"
    unfolding assign_def ex_world_objs by simp
  then have w'_eq: "w' = ex_world\<lparr>objs := (objs ex_world)
        (0 := Some \<lparr>m_cache = 2, m_inter_map = 3, m_owner = False\<rparr>)\<rparr>"
    using w' by simp
  define w'' where "w'' = \<lparr>objs = (\<lambda>a. None),
      tables = [Some (Cache_cell empty_cache), Some (Imap_cell []), None, None]\<rparr>"
  have later: "run w' [Destroy 0, Destroy 1] = Inr w''"
    unfolding w'_eq
    by (simp add: dtor_def delete_cell_def allocated_def ex_world_def w''_def fun_eq_iff
        eval_nat_numeral)
  have step: "run ex_world [Assign 0 1] = Inr w'" using w' by simp
  have "run init_world ([Construct 0, Construct 1] @ [Assign 0 1] @ [Destroy 0, Destroy 1]) = Inr w''"
    by (simp only: run_append ex_world_reachable step later sum.case)
  then have all: "run init_world [Construct 0, Construct 1, Assign 0 1, Destroy 0, Destroy 1] = Inr w''"
    by (simp only: append_Cons append_Nil)
  have own: "m_owner ?f0" by simp
  have "allocated (tables w'') (m_cache ?f0) \<and> allocated (tables w'') (m_inter_map ?f0)"
    using leak ex_world_reachable own later by blast
  then have "allocated (tables w'') 0 \<and> allocated (tables w'') 1" by simp
  moreover have "\<not> allocated (tables w'') 2 \<and> \<not> allocated (tables w'') 3"
    by (simp add: w''_def allocated_def eval_nat_numeral)
  ultimately show ?thesis using all by blast
qed

text \<open>
  C9. Self-assignment changes nothing: the world, hence the two pointers and the owner
  flag of the facade, is as before, and the reference returned is the facade itself.
\<close>

theorem self_assignment_noop:
  assumes "objs w x = Some fx"
  shows "assign x x w = Inr (x, w) \<and>
         (\<forall>r w'. assign x x w = Inr (r, w') \<longrightarrow>
            r = x \<and> objs w' x = Some fx \<and> tables w' = tables w \<and> objs w' = objs w)"
  using assms by (simp add: assign_def)

theorem self_assignment_noop_witness:
  "objs ex_world 0 = Some \<lparr>m_cache = 0, m_inter_map = 1, m_owner = True\<rparr> \<and>
   assign 0 0 ex_world = Inr (0, ex_world)"
  by (intro conjI) (rule ex_world_objs(1), rule conjunct1 [OF self_assignment_noop [OF ex_world_objs(1)]])

text \<open>
  C10. The endpoint comparison is \<open>SMALLER\<close> exactly when the curve is directed right,
  \<open>LARGER\<close> exactly when it is not, and never \<open>EQUAL\<close>, whatever the curve.
\<close>

theorem compare_endpoints_never_equal:
  "(Compare_endpoints_xy_2_call ops (compare_endpoints_xy_2_object tr) cv = SMALLER)
      = cv_is_directed_right ops cv \<and>
   (Compare_endpoints_xy_2_call ops (compare_endpoints_xy_2_object tr) cv = LARGER)
      = (\<not> cv_is_directed_right ops cv) \<and>
   Compare_endpoints_xy_2_call ops (compare_endpoints_xy_2_object tr) cv \<noteq> EQUAL"
  by (simp add: compare_endpoints_xy_2_object_def)

theorem compare_endpoints_never_equal_witness:
  "ps ex_point_arc = pt ex_point_arc \<and>
   Compare_endpoints_xy_2_call ex_ops (compare_endpoints_xy_2_object ex_traits) ex_point_arc = SMALLER \<and>
   Compare_endpoints_xy_2_call ex_ops (compare_endpoints_xy_2_object ex_traits) ex_point_arc \<noteq> EQUAL"
proof -
  note inst = compare_endpoints_never_equal [of ex_ops ex_traits ex_point_arc]
  have dir: "cv_is_directed_right ex_ops ex_point_arc" by (simp add: ex_ops_def)
  have a: "Compare_endpoints_xy_2_call ex_ops (compare_endpoints_xy_2_object ex_traits) ex_point_arc
      = SMALLER"
    using conjunct1 [OF inst] dir by blast
  have b: "Compare_endpoints_xy_2_call ex_ops (compare_endpoints_xy_2_object ex_traits) ex_point_arc
      \<noteq> EQUAL"
    using conjunct2 [OF conjunct2 [OF inst]] .
  have c: "ps ex_point_arc = pt ex_point_arc" by (simp add: ex_point_arc_def)
  show ?thesis using a b c by (intro conjI)
qed

end
